theory Spec2Isabelle
  imports Complex_Main
begin

section \<open>Data model\<close>

text \<open>
  The keeper of \<^verbatim>\<open>oasis_market_maker_keeper.py\<close> maintains orders on the
  W-ETH/SAI pair of OasisDEX. Amounts and prices are \<^verbatim>\<open>Wad\<close> values: fixed-point
  numbers that hold an integer count of \<open>10\<^sup>-\<^sup>1\<^sup>8\<close> units. Their comparison, addition,
  subtraction and \<^verbatim>\<open>Wad.min\<close> act on that integer, so a \<^verbatim>\<open>Wad\<close> is an
  \<open>int\<close> here. Token and account addresses are opaque identifiers.
\<close>

type_synonym wad = int
type_synonym address = nat

text \<open>An order of the order book (\<^verbatim>\<open>pymaker.oasis.Order\<close>), with the fields the keeper reads.\<close>

record order =
  order_id :: nat
  owner :: address
  sell_which_token :: address
  sell_how_much :: wad
  buy_which_token :: address
  buy_how_much :: wad

text \<open>
  A band (\<^verbatim>\<open>BuyBand\<close> or \<^verbatim>\<open>SellBand\<close>), with the fields the keeper reads.
  The margins are the numbers of the configuration file; the keeper only compares them,
  so their type is any linear order.
\<close>

record 'm band =
  min_margin :: 'm
  avg_margin :: 'm
  max_margin :: 'm
  min_amount :: wad
  avg_amount :: wad
  max_amount :: wad
  dust_cutoff :: wad

text \<open>The arguments of one \<^verbatim>\<open>otc.make(...)\<close> call: a new order to be placed.\<close>

record transact =
  have_token :: address
  have_amount :: wad
  want_token :: address
  want_amount :: wad

text \<open>
  The fields of the keeper object that the reconciliation reads and never changes: its
  address, the two tokens, and the command line arguments. \<^verbatim>\<open>--gas-price\<close> is declared
  by the base class of the keeper, with an integer default; the arguments declared with
  \<^verbatim>\<open>type=int\<close> and no default are \<open>None\<close> when they are not given.
\<close>

record keeper =
  our_address :: address
  sai :: address
  gem :: address
  min_eth_balance :: wad
  round_places :: int
  gas_price :: int
  gas_price_increase :: "int option"
  gas_price_increase_every :: int
  gas_price_max :: "int option"
  cancel_gas_price :: int
  cancel_gas_price_increase :: "int option"
  cancel_gas_price_increase_every :: int
  cancel_gas_price_max :: "int option"

text \<open>The gas price strategies of \<^verbatim>\<open>pymaker.gas\<close> that the keeper constructs.\<close>

datatype GasPrice =
    DefaultGasPrice
  | FixedGasPrice int
  | IncreasingGasPrice int int int "int option"

text \<open>
  The methods of the band classes and the \<^verbatim>\<open>Wad\<close> operators that the keeper calls
  live in the imported packages \<^verbatim>\<open>keeper.band\<close> and \<^verbatim>\<open>pymaker.numeric\<close>. They are
  parameters of the model. Division is the one operator that can raise
  (on a zero divisor), so it returns an option.
\<close>

record 'm lib =
  BuyBand_includes :: "'m band \<Rightarrow> order \<Rightarrow> wad \<Rightarrow> bool"
  SellBand_includes :: "'m band \<Rightarrow> order \<Rightarrow> wad \<Rightarrow> bool"
  BuyBand_avg_price :: "'m band \<Rightarrow> wad \<Rightarrow> wad"
  SellBand_avg_price :: "'m band \<Rightarrow> wad \<Rightarrow> wad"
  wad_mul :: "wad \<Rightarrow> wad \<Rightarrow> wad"
  wad_div :: "wad \<Rightarrow> wad \<Rightarrow> wad option"
  wad_round :: "wad \<Rightarrow> int \<Rightarrow> wad"

text \<open>
  What a reconciliation pass does to the outside world, in the order it does it:
  the reads of the external collaborators, the log lines, the termination request and
  the transactions sent to the exchange, each with the gas price it is sent with.
\<close>

datatype event =
    Eth_balance
  | Get_config
  | Get_orders
  | Get_price
  | Balance_of address
  | Terminate string
  | Warning string
  | Kill nat GasPrice
  | Make transact GasPrice

text \<open>
  The exceptions a pass can raise: the division by a zero price, and the comparison
  \<^verbatim>\<open>None > 0\<close> of an argument that was not given.
\<close>

datatype error = ZeroDivisionError | TypeError

text \<open>
  The world a pass runs in: the keeper's ETH balance, the parsed band configuration
  (buy bands, sell bands), the price feed (\<open>None\<close> when no price is available), the order
  book of the exchange, the keeper's token balances by token address, the exchange's
  order counter, the ETH that sending a transaction costs the keeper (its gas), and the
  trace of events so far.
\<close>

record 'm world =
  eth_balance :: wad
  bands_config :: "'m band list \<times> 'm band list"
  price_feed :: "wad option"
  otc_orders :: "order list"
  balance_of :: "address \<Rightarrow> wad"
  last_offer_id :: nat
  tx_fee :: "event \<Rightarrow> wad"
  trace :: "event list"

definition emit :: "event \<Rightarrow> 'm world \<Rightarrow> 'm world" where
  "emit e w = w\<lparr>trace := trace w @ [e]\<rparr>"

definition terminate :: "string \<Rightarrow> 'm world \<Rightarrow> 'm world" where
  "terminate msg w = emit (Terminate msg) w"

section \<open>Band configuration\<close>

definition two_bands_overlap :: "('m::linorder) band \<Rightarrow> 'm band \<Rightarrow> bool" where
  "two_bands_overlap band1 band2 =
     (min_margin band1 < max_margin band2 \<and> min_margin band2 < max_margin band1)"

text \<open>The loop of \<^verbatim>\<open>bands_overlap\<close>: \<open>rest\<close> is what is left to iterate over.\<close>

fun bands_overlap_loop :: "('m::linorder) band list \<Rightarrow> 'm band list \<Rightarrow> bool" where
  "bands_overlap_loop bands [] = False"
| "bands_overlap_loop bands (band1 # rest) =
     (if length (filter (\<lambda>band2. two_bands_overlap band1 band2) bands) > 1 then True
      else bands_overlap_loop bands rest)"

definition bands_overlap :: "('m::linorder) band list \<Rightarrow> bool" where
  "bands_overlap bands = bands_overlap_loop bands bands"

definition band_configuration ::
  "('m::linorder) world \<Rightarrow> ('m band list \<times> 'm band list) \<times> 'm world" where
  "band_configuration w =
     (let w1 = emit Get_config w;
          buy_bands = fst (bands_config w1);
          sell_bands = snd (bands_config w1)
      in if bands_overlap buy_bands \<or> bands_overlap sell_bands
         then (([], []),
               terminate ''Bands in the config file overlap. Terminating the keeper.'' w1)
         else ((buy_bands, sell_bands), w1))"

section \<open>Order classification\<close>

definition our_orders :: "keeper \<Rightarrow> 'm world \<Rightarrow> order list \<times> 'm world" where
  "our_orders k w =
     (filter (\<lambda>order. owner order = our_address k) (otc_orders w), emit Get_orders w)"

definition our_sell_orders :: "keeper \<Rightarrow> order list \<Rightarrow> order list" where
  "our_sell_orders k ours =
     filter (\<lambda>order. buy_which_token order = sai k \<and> sell_which_token order = gem k) ours"

definition our_buy_orders :: "keeper \<Rightarrow> order list \<Rightarrow> order list" where
  "our_buy_orders k ours =
     filter (\<lambda>order. buy_which_token order = gem k \<and> sell_which_token order = sai k) ours"

text \<open>An order of the pair of the keeper, in either direction.\<close>

definition on_pair :: "keeper \<Rightarrow> order \<Rightarrow> bool" where
  "on_pair k order =
     ((buy_which_token order = sai k \<and> sell_which_token order = gem k) \<or>
      (buy_which_token order = gem k \<and> sell_which_token order = sai k))"

definition total_amount :: "order list \<Rightarrow> wad" where
  "total_amount orders = foldl (+) 0 (map sell_how_much orders)"

section \<open>The exchange\<close>

text \<open>
  Modelled from the spec: the venue port's cancellation (\<^verbatim>\<open>otc.kill\<close> of
  \<^verbatim>\<open>pymaker.oasis\<close>, and the exchange contract behind it) is not part of the source.
  By the spec a cancelled order is "no longer open", and a cancellation of an order that
  is not open is a no-op. The keeper can only cancel its own orders. The amount the
  order was selling returns to the keeper's available balance of that token. The
  transaction costs the keeper its fee in ETH, whether the order was open or not.
\<close>

definition otc_kill :: "keeper \<Rightarrow> nat \<Rightarrow> GasPrice \<Rightarrow> 'm world \<Rightarrow> 'm world" where
  "otc_kill k oid g w =
     (let killed = filter (\<lambda>order. order_id order = oid \<and> owner order = our_address k)
                     (otc_orders w)
      in w\<lparr>eth_balance := eth_balance w - tx_fee w (Kill oid g),
           otc_orders :=
             filter (\<lambda>order. \<not> (order_id order = oid \<and> owner order = our_address k))
               (otc_orders w),
           balance_of :=
             fold (\<lambda>order b. b(sell_which_token order :=
                                  b (sell_which_token order) + sell_how_much order))
               killed (balance_of w)\<rparr>)"

text \<open>
  Modelled from the spec: the venue port's placement (\<^verbatim>\<open>otc.make\<close>) is not part of
  the source. It opens an order of the keeper, under the next order id, that sells
  \<open>have_amount\<close> of \<open>have_token\<close> for \<open>want_amount\<close> of \<open>want_token\<close>; that amount
  leaves the keeper's available balance of \<open>have_token\<close>. The transaction costs the
  keeper its fee in ETH.
\<close>

definition otc_make :: "keeper \<Rightarrow> transact \<Rightarrow> GasPrice \<Rightarrow> 'm world \<Rightarrow> 'm world" where
  "otc_make k t g w =
     w\<lparr>eth_balance := eth_balance w - tx_fee w (Make t g),
       otc_orders := otc_orders w @
          [\<lparr>order_id = Suc (last_offer_id w), owner = our_address k,
            sell_which_token = have_token t, sell_how_much = have_amount t,
            buy_which_token = want_token t, buy_how_much = want_amount t\<rparr>],
       balance_of := (balance_of w)(have_token t := balance_of w (have_token t) - have_amount t),
       last_offer_id := Suc (last_offer_id w)\<rparr>"

section \<open>Gas prices\<close>

text \<open>
  \<^verbatim>\<open>gas_price_for_order_placement\<close>. The first condition is
  \<^verbatim>\<open>gas_price > 0 and gas_price_increase > 0\<close>: with a positive gas price its second
  comparison is evaluated, and it raises a \<^verbatim>\<open>TypeError\<close> when the increase was not given.
  With an increase that is not positive the \<^verbatim>\<open>elif\<close> branch gives the fixed gas price.
\<close>

definition gas_price_for_order_placement :: "keeper \<Rightarrow> error + GasPrice" where
  "gas_price_for_order_placement k =
     (if gas_price k > 0 then
        (case gas_price_increase k of
           None \<Rightarrow> Inl TypeError
         | Some increase \<Rightarrow>
             if increase > 0
             then Inr (IncreasingGasPrice (gas_price k) increase (gas_price_increase_every k)
                         (gas_price_max k))
             else Inr (FixedGasPrice (gas_price k)))
      else Inr DefaultGasPrice)"

text \<open>
  \<^verbatim>\<open>gas_price_for_order_cancellation\<close>, with the same first condition on the
  cancellation arguments; without a positive cancellation gas price it is the gas price
  for order placement.
\<close>

definition gas_price_for_order_cancellation :: "keeper \<Rightarrow> error + GasPrice" where
  "gas_price_for_order_cancellation k =
     (if cancel_gas_price k > 0 then
        (case cancel_gas_price_increase k of
           None \<Rightarrow> Inl TypeError
         | Some increase \<Rightarrow>
             if increase > 0
             then Inr (IncreasingGasPrice (cancel_gas_price k) increase
                         (cancel_gas_price_increase_every k) (cancel_gas_price_max k))
             else Inr (FixedGasPrice (cancel_gas_price k)))
      else gas_price_for_order_placement k)"

text \<open>
  The list comprehensions of \<^verbatim>\<open>cancel_orders\<close> and \<^verbatim>\<open>top_up_bands\<close> build one
  transaction per item and evaluate the gas price once for each item: with no item the
  gas price is never evaluated, and an exception of the gas price leaves the
  comprehension before any transaction is sent.
\<close>

fun with_gas_price :: "error + GasPrice \<Rightarrow> 'a list \<Rightarrow> error + ('a \<times> GasPrice) list" where
  "with_gas_price gas [] = Inr []"
| "with_gas_price gas (x # xs) =
     (case gas of
        Inl e \<Rightarrow> Inl e
      | Inr g \<Rightarrow>
          (case with_gas_price gas xs of
             Inl e \<Rightarrow> Inl e
           | Inr txs \<Rightarrow> Inr ((x, g) # txs)))"

section \<open>Cancellation\<close>

text \<open>
  \<^verbatim>\<open>synchronize\<close> sends the transactions it is given and waits for all of them:
  here the \<^verbatim>\<open>kill\<close> transactions of \<^verbatim>\<open>cancel_orders\<close>.
\<close>

definition synchronize_kills :: "keeper \<Rightarrow> (order \<times> GasPrice) list \<Rightarrow> 'm world \<Rightarrow> 'm world" where
  "synchronize_kills k txs w =
     fold (\<lambda>(order, g) w. otc_kill k (order_id order) g (emit (Kill (order_id order) g) w))
       txs w"

definition cancel_orders :: "keeper \<Rightarrow> order list \<Rightarrow> 'm world \<Rightarrow> error + 'm world" where
  "cancel_orders k orders w =
     (case with_gas_price (gas_price_for_order_cancellation k) orders of
        Inl e \<Rightarrow> Inl e
      | Inr txs \<Rightarrow> Inr (synchronize_kills k txs w))"

definition cancel_all_orders :: "keeper \<Rightarrow> 'm world \<Rightarrow> error + 'm world" where
  "cancel_all_orders k w = (let (ours, w1) = our_orders k w in cancel_orders k ours w1)"

text \<open>
  Modelled from the spec: \<^verbatim>\<open>Band.excessive_orders\<close> of \<^verbatim>\<open>keeper.band\<close> is not
  part of the source. By the spec, if the total of the orders currently in the band
  exceeds the band's maximum, all orders currently in that band are marked for
  cancellation, and none otherwise. The first argument is the band's
  \<^verbatim>\<open>includes\<close> method.
\<close>

definition excessive_orders ::
  "('m band \<Rightarrow> order \<Rightarrow> wad \<Rightarrow> bool) \<Rightarrow> 'm band \<Rightarrow> order list \<Rightarrow> wad \<Rightarrow> order list" where
  "excessive_orders includes band orders target_price =
     (let orders_in_band = filter (\<lambda>order. includes band order target_price) orders
      in if total_amount orders_in_band > max_amount band then orders_in_band else [])"

definition excessive_sell_orders ::
  "'m lib \<Rightarrow> keeper \<Rightarrow> order list \<Rightarrow> 'm band list \<Rightarrow> wad \<Rightarrow> order list" where
  "excessive_sell_orders lib k ours sell_bands target_price =
     concat (map (\<lambda>band. excessive_orders (SellBand_includes lib) band
                            (our_sell_orders k ours) target_price) sell_bands)"

definition excessive_buy_orders ::
  "'m lib \<Rightarrow> keeper \<Rightarrow> order list \<Rightarrow> 'm band list \<Rightarrow> wad \<Rightarrow> order list" where
  "excessive_buy_orders lib k ours buy_bands target_price =
     concat (map (\<lambda>band. excessive_orders (BuyBand_includes lib) band
                            (our_buy_orders k ours) target_price) buy_bands)"

definition outside_any_band_orders ::
  "('m band \<Rightarrow> order \<Rightarrow> wad \<Rightarrow> bool) \<Rightarrow> order list \<Rightarrow> 'm band list \<Rightarrow> wad \<Rightarrow> order list" where
  "outside_any_band_orders includes orders bands target_price =
     filter (\<lambda>order. \<not> list_ex (\<lambda>band. includes band order target_price) bands) orders"

definition outside_orders ::
  "'m lib \<Rightarrow> keeper \<Rightarrow> order list \<Rightarrow> 'm band list \<Rightarrow> 'm band list \<Rightarrow> wad \<Rightarrow> order list" where
  "outside_orders lib k ours buy_bands sell_bands target_price =
     outside_any_band_orders (BuyBand_includes lib) (our_buy_orders k ours) buy_bands target_price @
     outside_any_band_orders (SellBand_includes lib) (our_sell_orders k ours) sell_bands target_price"

section \<open>Top-up\<close>

text \<open>
  One iteration of the loop of \<^verbatim>\<open>top_up_sell_bands\<close>: from the running balance
  \<open>our_balance\<close> to the new running balance and the orders yielded for this band.
\<close>

definition top_up_sell_band ::
  "'m lib \<Rightarrow> keeper \<Rightarrow> order list \<Rightarrow> wad \<Rightarrow> 'm band \<Rightarrow> wad \<Rightarrow> wad \<times> transact list" where
  "top_up_sell_band lib k ours target_price band our_balance =
     (let orders = filter (\<lambda>order. SellBand_includes lib band order target_price)
                     (our_sell_orders k ours);
          total = total_amount orders
      in if total < min_amount band then
           (let have = min (avg_amount band - total) our_balance
            in if have \<ge> dust_cutoff band \<and> have > 0 then
                 (let our_balance' = our_balance - have;
                      want = wad_mul lib have
                               (wad_round lib (SellBand_avg_price lib band target_price)
                                  (round_places k))
                  in if want > 0
                     then (our_balance',
                           [\<lparr>have_token = gem k, have_amount = have,
                             want_token = sai k, want_amount = want\<rparr>])
                     else (our_balance', []))
               else (our_balance, []))
         else (our_balance, []))"

fun top_up_sell_loop ::
  "'m lib \<Rightarrow> keeper \<Rightarrow> order list \<Rightarrow> wad \<Rightarrow> 'm band list \<Rightarrow> wad \<Rightarrow> wad \<times> transact list" where
  "top_up_sell_loop lib k ours target_price [] our_balance = (our_balance, [])"
| "top_up_sell_loop lib k ours target_price (band # bands) our_balance =
     (let (our_balance', yielded) = top_up_sell_band lib k ours target_price band our_balance;
          (our_balance'', rest) = top_up_sell_loop lib k ours target_price bands our_balance'
      in (our_balance'', yielded @ rest))"

definition top_up_sell_bands ::
  "'m lib \<Rightarrow> keeper \<Rightarrow> order list \<Rightarrow> 'm band list \<Rightarrow> wad \<Rightarrow> 'm world \<Rightarrow> transact list \<times> 'm world" where
  "top_up_sell_bands lib k ours sell_bands target_price w =
     (let w1 = emit (Balance_of (gem k)) w
      in (snd (top_up_sell_loop lib k ours target_price sell_bands (balance_of w1 (gem k))), w1))"

text \<open>
  One iteration of the loop of \<^verbatim>\<open>top_up_buy_bands\<close>. The division raises when the
  rounded average price is zero; the exception ends the generator, after the orders it
  has yielded so far.
\<close>

definition top_up_buy_band ::
  "'m lib \<Rightarrow> keeper \<Rightarrow> order list \<Rightarrow> wad \<Rightarrow> 'm band \<Rightarrow> wad \<Rightarrow> error + wad \<times> transact list" where
  "top_up_buy_band lib k ours target_price band our_balance =
     (let orders = filter (\<lambda>order. BuyBand_includes lib band order target_price)
                     (our_buy_orders k ours);
          total = total_amount orders
      in if total < min_amount band then
           (let have = min (avg_amount band - total) our_balance
            in if have \<ge> dust_cutoff band \<and> have > 0 then
                 (let our_balance' = our_balance - have
                  in case wad_div lib have
                            (wad_round lib (BuyBand_avg_price lib band target_price)
                               (round_places k)) of
                       None \<Rightarrow> Inl ZeroDivisionError
                     | Some want \<Rightarrow>
                         if want > 0
                         then Inr (our_balance',
                                   [\<lparr>have_token = sai k, have_amount = have,
                                     want_token = gem k, want_amount = want\<rparr>])
                         else Inr (our_balance', []))
               else Inr (our_balance, []))
         else Inr (our_balance, []))"

fun top_up_buy_loop ::
  "'m lib \<Rightarrow> keeper \<Rightarrow> order list \<Rightarrow> wad \<Rightarrow> 'm band list \<Rightarrow> wad
     \<Rightarrow> error \<times> transact list + wad \<times> transact list" where
  "top_up_buy_loop lib k ours target_price [] our_balance = Inr (our_balance, [])"
| "top_up_buy_loop lib k ours target_price (band # bands) our_balance =
     (case top_up_buy_band lib k ours target_price band our_balance of
        Inl e \<Rightarrow> Inl (e, [])
      | Inr (our_balance', yielded) \<Rightarrow>
          (case top_up_buy_loop lib k ours target_price bands our_balance' of
             Inl (e, rest) \<Rightarrow> Inl (e, yielded @ rest)
           | Inr (our_balance'', rest) \<Rightarrow> Inr (our_balance'', yielded @ rest)))"

definition top_up_buy_bands ::
  "'m lib \<Rightarrow> keeper \<Rightarrow> order list \<Rightarrow> 'm band list \<Rightarrow> wad \<Rightarrow> 'm world
     \<Rightarrow> error \<times> transact list + transact list \<times> 'm world" where
  "top_up_buy_bands lib k ours buy_bands target_price w =
     (let w1 = emit (Balance_of (sai k)) w
      in case top_up_buy_loop lib k ours target_price buy_bands (balance_of w1 (sai k)) of
           Inl (e, yielded) \<Rightarrow> Inl (e, yielded)
         | Inr (_, yielded) \<Rightarrow> Inr (yielded, w1))"

text \<open>
  \<^verbatim>\<open>synchronize\<close> on the \<^verbatim>\<open>make\<close> transactions of \<^verbatim>\<open>top_up_bands\<close>.
\<close>

definition synchronize_makes :: "keeper \<Rightarrow> (transact \<times> GasPrice) list \<Rightarrow> 'm world \<Rightarrow> 'm world" where
  "synchronize_makes k txs w = fold (\<lambda>(t, g) w. otc_make k t g (emit (Make t g) w)) txs w"

text \<open>
  \<^verbatim>\<open>top_up_bands\<close> drains the buy generator, then the sell generator, building one
  transaction with its gas price for each order they yield, and only then sends the
  transactions. An exception of the gas price or of a generator leaves before any of
  them is sent: when the buy generator raises after it has yielded orders, the gas price
  has been evaluated for them first.
\<close>

definition top_up_bands ::
  "'m lib \<Rightarrow> keeper \<Rightarrow> order list \<Rightarrow> 'm band list \<Rightarrow> 'm band list \<Rightarrow> wad \<Rightarrow> 'm world
     \<Rightarrow> error + 'm world" where
  "top_up_bands lib k ours buy_bands sell_bands target_price w =
     (case top_up_buy_bands lib k ours buy_bands target_price w of
        Inl (e, yielded) \<Rightarrow>
          (case with_gas_price (gas_price_for_order_placement k) yielded of
             Inl e' \<Rightarrow> Inl e'
           | Inr txs \<Rightarrow> Inl e)
      | Inr (buys, w1) \<Rightarrow>
          (let (sells, w2) = top_up_sell_bands lib k ours sell_bands target_price w1
           in case with_gas_price (gas_price_for_order_placement k) (buys @ sells) of
                Inl e \<Rightarrow> Inl e
              | Inr txs \<Rightarrow> Inr (synchronize_makes k txs w2)))"

section \<open>The reconciliation pass\<close>

definition get_price :: "'m world \<Rightarrow> wad option \<times> 'm world" where
  "get_price w = (price_feed w, emit Get_price w)"

definition synchronize_orders :: "('m::linorder) lib \<Rightarrow> keeper \<Rightarrow> 'm world \<Rightarrow> error + 'm world" where
  "synchronize_orders lib k w =
     (let w0 = emit Eth_balance w
      in if eth_balance w0 < min_eth_balance k then
           cancel_all_orders k
             (terminate ''Keeper balance is below the minimum, terminating.'' w0)
         else
           (let ((buy_bands, sell_bands), w1) = band_configuration w0;
                (ours, w2) = our_orders k w1;
                (target_price, w3) = get_price w2
            in case target_price of
                 Some p \<Rightarrow>
                   (case cancel_orders k
                           (excessive_buy_orders lib k ours buy_bands p @
                            excessive_sell_orders lib k ours sell_bands p @
                            outside_orders lib k ours buy_bands sell_bands p) w3 of
                      Inl e \<Rightarrow> Inl e
                    | Inr w4 \<Rightarrow>
                        (let (ours', w5) = our_orders k w4
                         in top_up_bands lib k ours' buy_bands sell_bands p w5))
               | None \<Rightarrow>
                   cancel_all_orders k
                     (emit (Warning ''Cancelling all orders as no price feed available.'')
                        w3)))"

text \<open>The intents of a trace: the ids it cancels and the orders it places.\<close>

fun cancel_intents :: "event list \<Rightarrow> nat list" where
  "cancel_intents [] = []"
| "cancel_intents (Kill oid g # es) = oid # cancel_intents es"
| "cancel_intents (e # es) = cancel_intents es"

fun place_intents :: "event list \<Rightarrow> transact list" where
  "place_intents [] = []"
| "place_intents (Make t g # es) = t # place_intents es"
| "place_intents (e # es) = place_intents es"

text \<open>The events of one pass: what the final trace adds to the trace the pass started with.\<close>

definition emitted :: "'m world \<Rightarrow> 'm world \<Rightarrow> event list" where
  "emitted w w' = drop (length (trace w)) (trace w')"

section \<open>The orders that the top-up of a pass places\<close>

text \<open>
  The orders that the exchange opens for a list of placements, from the order counter
  \<open>n\<close> on.
\<close>

fun made_orders :: "keeper \<Rightarrow> nat \<Rightarrow> transact list \<Rightarrow> order list" where
  "made_orders k n [] = []"
| "made_orders k n (t # ts) =
     \<lparr>order_id = Suc n, owner = our_address k,
      sell_which_token = have_token t, sell_how_much = have_amount t,
      buy_which_token = want_token t, buy_how_much = want_amount t\<rparr> # made_orders k (Suc n) ts"

text \<open>
  The orders opened for what the band at position \<open>i\<close> yields in a top-up pass that
  starts with the balance \<open>balance\<close> and the order counter \<open>n\<close>: the band is stepped at the
  running balance that the \<open>i\<close> bands before it leave, and its order follows theirs.
\<close>

definition sell_placed ::
  "'m lib \<Rightarrow> keeper \<Rightarrow> order list \<Rightarrow> wad \<Rightarrow> 'm band list \<Rightarrow> wad \<Rightarrow> nat \<Rightarrow> nat \<Rightarrow> order list" where
  "sell_placed lib k ours p bands balance n i =
     (case top_up_sell_loop lib k ours p (take i bands) balance of
        (r, before) \<Rightarrow>
          made_orders k (n + length before)
            (snd (top_up_sell_band lib k ours p (bands ! i) r)))"

definition buy_placed ::
  "'m lib \<Rightarrow> keeper \<Rightarrow> order list \<Rightarrow> wad \<Rightarrow> 'm band list \<Rightarrow> wad \<Rightarrow> nat \<Rightarrow> nat \<Rightarrow> order list" where
  "buy_placed lib k ours p bands balance n i =
     (case top_up_buy_loop lib k ours p (take i bands) balance of
        Inl e \<Rightarrow> []
      | Inr (r, before) \<Rightarrow>
          (case top_up_buy_band lib k ours p (bands ! i) r of
             Inl e \<Rightarrow> []
           | Inr (r', yielded) \<Rightarrow> made_orders k (n + length before) yielded))"

text \<open>
  The orders placed for the bands of a list land when each of them is included in the
  band it was placed for and in no band at another position of the list.
\<close>

definition landed ::
  "('m band \<Rightarrow> order \<Rightarrow> bool) \<Rightarrow> 'm band list \<Rightarrow> (nat \<Rightarrow> order list) \<Rightarrow> bool" where
  "landed incl bands placed =
     (\<forall>i<length bands. \<forall>e\<in>set (placed i). \<forall>j<length bands. incl (bands ! j) e = (j = i))"

text \<open>
  The orders that a pass over the world \<open>w\<close> places land, at the price of the pass. A pass
  that stops at the ETH guard, finds no price or raises before its top-up places
  nothing. Otherwise the top-up runs on the own orders, the balances and the order
  counter that the cancellations of the pass leave, with the bands that
  \<open>band_configuration\<close> returns, the buy bands before the sell bands.
\<close>

definition placed_orders_land :: "('m::linorder) lib \<Rightarrow> keeper \<Rightarrow> 'm world \<Rightarrow> bool" where
  "placed_orders_land lib k w =
     (if eth_balance w < min_eth_balance k then True
      else case price_feed w of
        None \<Rightarrow> True
      | Some p \<Rightarrow>
          (let buy_bands = fst (fst (band_configuration w));
               sell_bands = snd (fst (band_configuration w));
               ours = fst (our_orders k w)
           in case cancel_orders k
                     (excessive_buy_orders lib k ours buy_bands p @
                      excessive_sell_orders lib k ours sell_bands p @
                      outside_orders lib k ours buy_bands sell_bands p) w of
                Inl e \<Rightarrow> True
              | Inr w4 \<Rightarrow>
                  (let ours' = fst (our_orders k w4)
                   in case top_up_buy_loop lib k ours' p buy_bands (balance_of w4 (sai k)) of
                        Inl e \<Rightarrow> True
                      | Inr (r, buys) \<Rightarrow>
                          landed (\<lambda>band order. BuyBand_includes lib band order p) buy_bands
                            (buy_placed lib k ours' p buy_bands (balance_of w4 (sai k))
                               (last_offer_id w4)) \<and>
                          landed (\<lambda>band order. SellBand_includes lib band order p) sell_bands
                            (sell_placed lib k ours' p sell_bands (balance_of w4 (gem k))
                               (last_offer_id w4 + length buys)))))"

section \<open>An abstract view of the two top-up loops\<close>

text \<open>
  Both top-up loops are one loop over the bands that differs in the total of each band
  and in the amount wanted. \<open>core_band\<close> and \<open>core_loop\<close> are that loop on the pairs
  (amount put up, amount wanted), and \<open>core_yields\<close> lists what each band yields; the
  lemmas \<open>core_loop_sell\<close> and \<open>core_loop_buy\<close> show that the loops of the keeper are its
  instances. \<open>want_sell\<close> and \<open>want_buy\<close> are the amounts wanted as the two loops compute
  them (\<open>None\<close> when the division raises), \<open>sell_side\<close> and \<open>buy_side\<close> the owner and tokens
  of the orders of each side, and \<open>made_from\<close> relates a pair of amounts to an order of a
  side with these amounts.
\<close>

definition want_sell :: "'m lib \<Rightarrow> keeper \<Rightarrow> wad \<Rightarrow> 'm band \<Rightarrow> wad \<Rightarrow> wad option" where
  "want_sell lib k p band h =
     Some (wad_mul lib h (wad_round lib (SellBand_avg_price lib band p) (round_places k)))"

definition want_buy :: "'m lib \<Rightarrow> keeper \<Rightarrow> wad \<Rightarrow> 'm band \<Rightarrow> wad \<Rightarrow> wad option" where
  "want_buy lib k p band h =
     wad_div lib h (wad_round lib (BuyBand_avg_price lib band p) (round_places k))"

definition sell_side :: "keeper \<Rightarrow> order \<Rightarrow> bool" where
  "sell_side k e =
     (owner e = our_address k \<and> sell_which_token e = gem k \<and> buy_which_token e = sai k)"

definition buy_side :: "keeper \<Rightarrow> order \<Rightarrow> bool" where
  "buy_side k e =
     (owner e = our_address k \<and> sell_which_token e = sai k \<and> buy_which_token e = gem k)"

definition core_band ::
  "('m band \<Rightarrow> wad) \<Rightarrow> ('m band \<Rightarrow> wad \<Rightarrow> wad option) \<Rightarrow> 'm band \<Rightarrow> wad
     \<Rightarrow> (wad \<times> (wad \<times> wad) list) option" where
  "core_band tot want band r =
     (if tot band < min_amount band then
        (let h = min (avg_amount band - tot band) r
         in if dust_cutoff band \<le> h \<and> 0 < h then
              (case want band h of
                 None \<Rightarrow> None
               | Some v \<Rightarrow> if 0 < v then Some (r - h, [(h, v)]) else Some (r - h, []))
            else Some (r, []))
      else Some (r, []))"

fun core_loop ::
  "('m band \<Rightarrow> wad) \<Rightarrow> ('m band \<Rightarrow> wad \<Rightarrow> wad option) \<Rightarrow> 'm band list \<Rightarrow> wad
     \<Rightarrow> (wad \<times> (wad \<times> wad) list) option" where
  "core_loop tot want [] r = Some (r, [])"
| "core_loop tot want (b # bs) r =
     (case core_band tot want b r of
        None \<Rightarrow> None
      | Some (r1, zs) \<Rightarrow>
          (case core_loop tot want bs r1 of
             None \<Rightarrow> None
           | Some (rf, rest) \<Rightarrow> Some (rf, zs @ rest)))"

fun core_yields ::
  "('m band \<Rightarrow> wad) \<Rightarrow> ('m band \<Rightarrow> wad \<Rightarrow> wad option) \<Rightarrow> 'm band list \<Rightarrow> wad
     \<Rightarrow> (wad \<times> wad) list list" where
  "core_yields tot want [] r = []"
| "core_yields tot want (b # bs) r =
     (case core_band tot want b r of
        None \<Rightarrow> []
      | Some (r1, zs) \<Rightarrow> zs # core_yields tot want bs r1)"

definition amounts :: "transact \<Rightarrow> wad \<times> wad" where
  "amounts t = (have_amount t, want_amount t)"

definition made_from :: "(order \<Rightarrow> bool) \<Rightarrow> wad \<times> wad \<Rightarrow> order \<Rightarrow> bool" where
  "made_from side y e = (side e \<and> sell_how_much e = fst y \<and> buy_how_much e = snd y)"

section \<open>The band methods and the fixed-point arithmetic, after the spec\<close>

text \<open>
  Modelled from the spec: \<^verbatim>\<open>Wad\<close> of \<^verbatim>\<open>pymaker.numeric\<close> is not part of the source.
  A \<^verbatim>\<open>Wad\<close> holds 18 decimal places; \<open>wad_value\<close> is the number it stands for.
\<close>

definition wad_value :: "wad \<Rightarrow> rat" where
  "wad_value x = of_int x / 10 ^ 18"

text \<open>
  Modelled from the spec: the price of an order, which \<^verbatim>\<open>includes\<close> of \<^verbatim>\<open>keeper.band\<close>
  (not part of the source) derives from the two amounts of the order, "consistently per
  side". For a sell order it is the ratio by which \<^verbatim>\<open>top_up_sell_bands\<close> prices a new
  order: the amount bought over the amount sold.
\<close>

definition sell_order_price :: "order \<Rightarrow> rat" where
  "sell_order_price order = of_int (buy_how_much order) / of_int (sell_how_much order)"

text \<open>
  Modelled from the spec: the price of a buy order, the ratio by which
  \<^verbatim>\<open>top_up_buy_bands\<close> prices a new order: the amount sold over the amount bought.
\<close>

definition buy_order_price :: "order \<Rightarrow> rat" where
  "buy_order_price order = of_int (sell_how_much order) / of_int (buy_how_much order)"

text \<open>
  Modelled from the spec: the methods \<^verbatim>\<open>includes\<close> and \<^verbatim>\<open>avg_price\<close> of
  \<^verbatim>\<open>keeper.band\<close> and the operators of \<^verbatim>\<open>Wad\<close> are not part of the source. By the
  spec, the price of a margin is \<open>p * (1 + margin)\<close> for a sell band and
  \<open>p * (1 - margin)\<close> for a buy band; a band includes an order iff the order's price lies
  in the closed range between the prices of its minimum and maximum margins; the price
  of a new order comes from the average margin and is rounded to a configured number of
  decimal places. Products and quotients of \<^verbatim>\<open>Wad\<close> values are cut to 18 decimal places,
  a division by zero raises, and rounding is to the nearest multiple of the decimal
  place. Margins are rational numbers here.
\<close>

definition spec_lib :: "rat lib" where
  "spec_lib =
     \<lparr>BuyBand_includes = (\<lambda>band order p.
          wad_value p * (1 - max_margin band) \<le> buy_order_price order \<and>
          buy_order_price order \<le> wad_value p * (1 - min_margin band)),
      SellBand_includes = (\<lambda>band order p.
          wad_value p * (1 + min_margin band) \<le> sell_order_price order \<and>
          sell_order_price order \<le> wad_value p * (1 + max_margin band)),
      BuyBand_avg_price = (\<lambda>band p. \<lfloor>of_int p * (1 - avg_margin band)\<rfloor>),
      SellBand_avg_price = (\<lambda>band p. \<lfloor>of_int p * (1 + avg_margin band)\<rfloor>),
      wad_mul = (\<lambda>a b. (a * b) div 10 ^ 18),
      wad_div = (\<lambda>a b. if b = 0 then None else Some ((a * 10 ^ 18) div b)),
      wad_round = (\<lambda>x n. let q = 10 ^ nat (18 - n) in ((2 * x + q) div (2 * q)) * q)\<rparr>"

section \<open>Example data\<close>

text \<open>
  A keeper at address 1 on the pair of the tokens 10 (SAI) and 20 (W-ETH), started with
  the default gas arguments; two bands that overlap each other, an order of the keeper
  on the pair, an order of the keeper on another pair, the reference price 1, and a world
  with no price in which every transaction costs 1 of ETH.
\<close>

definition ex_keeper :: keeper where
  "ex_keeper = \<lparr>our_address = 1, sai = 10, gem = 20, min_eth_balance = 5, round_places = 2,
                 gas_price = 0, gas_price_increase = None, gas_price_increase_every = 120,
                 gas_price_max = None, cancel_gas_price = 0, cancel_gas_price_increase = None,
                 cancel_gas_price_increase_every = 120, cancel_gas_price_max = None\<rparr>"

text \<open>
  The same keeper started with \<^verbatim>\<open>--cancel-gas-price 5\<close> and no
  \<^verbatim>\<open>--cancel-gas-price-increase\<close>.
\<close>

definition cancel_price_keeper :: keeper where
  "cancel_price_keeper = ex_keeper\<lparr>cancel_gas_price := 5\<rparr>"

definition ex_band1 :: "rat band" where
  "ex_band1 = \<lparr>min_margin = 1/100, avg_margin = 2/100, max_margin = 3/100,
                min_amount = 50, avg_amount = 100, max_amount = 150, dust_cutoff = 5\<rparr>"

definition ex_band2 :: "rat band" where
  "ex_band2 = \<lparr>min_margin = 2/100, avg_margin = 3/100, max_margin = 4/100,
                min_amount = 50, avg_amount = 100, max_amount = 150, dust_cutoff = 5\<rparr>"

definition ex_order :: order where
  "ex_order = \<lparr>order_id = 7, owner = 1, sell_which_token = 20, sell_how_much = 60,
                buy_which_token = 10, buy_how_much = 61\<rparr>"

definition ex_other_order :: order where
  "ex_other_order = \<lparr>order_id = 8, owner = 1, sell_which_token = 20, sell_how_much = 60,
                      buy_which_token = 30, buy_how_much = 61\<rparr>"

definition ex_price :: wad where
  "ex_price = 10 ^ 18"

definition ex_world :: "rat world" where
  "ex_world = \<lparr>eth_balance = 9, bands_config = ([ex_band1, ex_band2], [ex_band1]),
                price_feed = None, otc_orders = [ex_order, ex_other_order],
                balance_of = (\<lambda>token. 1000), last_offer_id = 8, tx_fee = (\<lambda>tx. 1),
                trace = []\<rparr>"

text \<open>
  A band narrower than the rounding of prices, and a world with this band as its only
  sell band, the price 1, no open order and a balance of 1000 units of each token; the
  worlds after a first and a second pass over it.
\<close>

definition narrow_band :: "rat band" where
  "narrow_band = \<lparr>min_margin = 1/1000, avg_margin = 2/1000, max_margin = 3/1000,
                   min_amount = 50, avg_amount = 100, max_amount = 150, dust_cutoff = 5\<rparr>"

definition cx_world :: "rat world" where
  "cx_world = \<lparr>eth_balance = 9, bands_config = ([], [narrow_band]),
                price_feed = Some ex_price, otc_orders = [],
                balance_of = (\<lambda>token. 1000), last_offer_id = 0, tx_fee = (\<lambda>tx. 1),
                trace = []\<rparr>"

definition cx_order :: order where
  "cx_order = \<lparr>order_id = 1, owner = 1, sell_which_token = 20, sell_how_much = 100,
                buy_which_token = 10, buy_how_much = 100\<rparr>"

definition cx_make :: transact where
  "cx_make = \<lparr>have_token = 20, have_amount = 100, want_token = 10, want_amount = 100\<rparr>"

definition cx_world1 :: "rat world" where
  "cx_world1 = \<lparr>eth_balance = 8, bands_config = ([], [narrow_band]),
                 price_feed = Some ex_price, otc_orders = [cx_order],
                 balance_of = (\<lambda>token. 1000)(20 := 900), last_offer_id = 1,
                 tx_fee = (\<lambda>tx. 1),
                 trace = [Eth_balance, Get_config, Get_orders, Get_price, Get_orders,
                          Balance_of 10, Balance_of 20, Make cx_make DefaultGasPrice]\<rparr>"

definition cx_world2 :: "rat world" where
  "cx_world2 = \<lparr>eth_balance = 6, bands_config = ([], [narrow_band]),
                 price_feed = Some ex_price, otc_orders = [cx_order\<lparr>order_id := 2\<rparr>],
                 balance_of = (\<lambda>token. 1000)(20 := 900), last_offer_id = 2,
                 tx_fee = (\<lambda>tx. 1),
                 trace = [Eth_balance, Get_config, Get_orders, Get_price, Get_orders,
                          Balance_of 10, Balance_of 20, Make cx_make DefaultGasPrice,
                          Eth_balance, Get_config, Get_orders, Get_price,
                          Kill 1 DefaultGasPrice, Get_orders,
                          Balance_of 10, Balance_of 20, Make cx_make DefaultGasPrice]\<rparr>"

text \<open>
  An ordinary band with no dust cut-off and amounts of 50, 100 and 150 tokens, and a
  world with this band on both sides, the price 1, an order of the keeper inside the
  sell band, an order of the keeper on another pair and a balance of 1000 tokens of each
  token; the world after a first pass.
\<close>

definition plain_band :: "rat band" where
  "plain_band = \<lparr>min_margin = 1/100, avg_margin = 2/100, max_margin = 3/100,
                  min_amount = 50 * 10 ^ 18, avg_amount = 100 * 10 ^ 18,
                  max_amount = 150 * 10 ^ 18, dust_cutoff = 0\<rparr>"

definition wit_order :: order where
  "wit_order = \<lparr>order_id = 7, owner = 1, sell_which_token = 20,
                 sell_how_much = 60 * 10 ^ 18,
                 buy_which_token = 10, buy_how_much = 612 * 10 ^ 17\<rparr>"

definition wit_make :: transact where
  "wit_make = \<lparr>have_token = 10, have_amount = 100 * 10 ^ 18, want_token = 20,
                want_amount = 102040816326530612244\<rparr>"

definition wit_world :: "rat world" where
  "wit_world = \<lparr>eth_balance = 9, bands_config = ([plain_band], [plain_band]),
                 price_feed = Some ex_price, otc_orders = [wit_order, ex_other_order],
                 balance_of = (\<lambda>token. 1000 * 10 ^ 18), last_offer_id = 8,
                 tx_fee = (\<lambda>tx. 1), trace = []\<rparr>"

definition wit_world1 :: "rat world" where
  "wit_world1 = \<lparr>eth_balance = 8, bands_config = ([plain_band], [plain_band]),
                  price_feed = Some ex_price,
                  otc_orders = [wit_order, ex_other_order,
                     \<lparr>order_id = 9, owner = 1, sell_which_token = 10,
                      sell_how_much = 100 * 10 ^ 18,
                      buy_which_token = 20, buy_how_much = 102040816326530612244\<rparr>],
                  balance_of = (\<lambda>token. 1000 * 10 ^ 18)(10 := 900 * 10 ^ 18),
                  last_offer_id = 9, tx_fee = (\<lambda>tx. 1),
                  trace = [Eth_balance, Get_config, Get_orders, Get_price, Get_orders,
                           Balance_of 10, Balance_of 20, Make wit_make DefaultGasPrice]\<rparr>"

section \<open>Properties of the band configuration\<close>

lemma filter_two_iff:
  "1 < length (filter P xs) \<longleftrightarrow>
     (\<exists>i j. i < j \<and> j < length xs \<and> P (xs ! i) \<and> P (xs ! j))"
proof (induction xs)
  case Nil
  then show ?case by simp
next
  case (Cons x xs)
  have one: "0 < length (filter P xs) \<longleftrightarrow> (\<exists>j. j < length xs \<and> P (xs ! j))"
    by (simp add: filter_empty_conv) (metis in_set_conv_nth)
  show ?case
  proof
    assume L: "1 < length (filter P (x # xs))"
    show "\<exists>i j. i < j \<and> j < length (x # xs) \<and> P ((x # xs) ! i) \<and> P ((x # xs) ! j)"
    proof (cases "1 < length (filter P xs)")
      case True
      with Cons.IH obtain i j where "i < j" "j < length xs" "P (xs ! i)" "P (xs ! j)"
        by blast
      then have "Suc i < Suc j \<and> Suc j < length (x # xs) \<and> P ((x # xs) ! Suc i) \<and> P ((x # xs) ! Suc j)"
        by simp
      then show ?thesis by blast
    next
      case False
      with L have px: "P x" and "0 < length (filter P xs)"
        by (auto split: if_splits)
      with one obtain j where "j < length xs" "P (xs ! j)" by blast
      with px have "0 < Suc j \<and> Suc j < length (x # xs) \<and> P ((x # xs) ! 0) \<and> P ((x # xs) ! Suc j)"
        by simp
      then show ?thesis by blast
    qed
  next
    assume "\<exists>i j. i < j \<and> j < length (x # xs) \<and> P ((x # xs) ! i) \<and> P ((x # xs) ! j)"
    then obtain i j where ij: "i < j" "j < length (x # xs)" "P ((x # xs) ! i)" "P ((x # xs) ! j)"
      by blast
    then obtain j' where j': "j = Suc j'" by (cases j) auto
    show "1 < length (filter P (x # xs))"
    proof (cases i)
      case 0
      with ij j' have "P x" "j' < length xs" "P (xs ! j')" by auto
      with one have "0 < length (filter P xs)" by blast
      with \<open>P x\<close> show ?thesis by simp
    next
      case (Suc i')
      with ij j' have "i' < j'" "j' < length xs" "P (xs ! i')" "P (xs ! j')" by auto
      with Cons.IH have "1 < length (filter P xs)" by blast
      then show ?thesis by (cases "P x") auto
    qed
  qed
qed

lemma bands_overlap_loop_iff:
  "bands_overlap_loop bands rest \<longleftrightarrow>
     (\<exists>band1 \<in> set rest. 1 < length (filter (\<lambda>band2. two_bands_overlap band1 band2) bands))"
  by (induction rest) auto

lemma two_bands_overlap_sym: "two_bands_overlap a b = two_bands_overlap b a"
  by (auto simp: two_bands_overlap_def)

lemma overlap_self:
  "two_bands_overlap a b \<Longrightarrow> two_bands_overlap a a \<or> two_bands_overlap b b"
  by (auto simp: two_bands_overlap_def)

text \<open>
  C2. Overlap detection is sound and complete: \<open>bands_overlap\<close> returns true exactly when
  two bands at distinct positions of the list have intersecting margin ranges, although
  the code only counts, for each band, the bands of the list that overlap it (itself
  among them) and tests the count against 1.
\<close>

theorem bands_overlap_iff:
  "bands_overlap bands =
     (\<exists>i j. i < length bands \<and> j < length bands \<and> i \<noteq> j \<and>
            min_margin (bands ! i) < max_margin (bands ! j) \<and>
            min_margin (bands ! j) < max_margin (bands ! i))"
proof
  assume "bands_overlap bands"
  then obtain band1 where b1: "band1 \<in> set bands"
      and cnt: "1 < length (filter (\<lambda>band2. two_bands_overlap band1 band2) bands)"
    by (auto simp: bands_overlap_def bands_overlap_loop_iff)
  from b1 obtain i where i: "i < length bands" "bands ! i = band1"
    by (auto simp: in_set_conv_nth)
  from cnt obtain j1 j2 where j: "j1 < j2" "j2 < length bands"
      "two_bands_overlap band1 (bands ! j1)" "two_bands_overlap band1 (bands ! j2)"
    unfolding filter_two_iff by blast
  show "\<exists>i j. i < length bands \<and> j < length bands \<and> i \<noteq> j \<and>
            min_margin (bands ! i) < max_margin (bands ! j) \<and>
            min_margin (bands ! j) < max_margin (bands ! i)"
  proof (cases "i = j1")
    case True
    with i j have "i < length bands \<and> j2 < length bands \<and> i \<noteq> j2 \<and>
        min_margin (bands ! i) < max_margin (bands ! j2) \<and>
        min_margin (bands ! j2) < max_margin (bands ! i)"
      by (simp add: two_bands_overlap_def)
    then show ?thesis by blast
  next
    case False
    with i j have "i < length bands \<and> j1 < length bands \<and> i \<noteq> j1 \<and>
        min_margin (bands ! i) < max_margin (bands ! j1) \<and>
        min_margin (bands ! j1) < max_margin (bands ! i)"
      by (simp add: two_bands_overlap_def)
    then show ?thesis by blast
  qed
next
  assume "\<exists>i j. i < length bands \<and> j < length bands \<and> i \<noteq> j \<and>
            min_margin (bands ! i) < max_margin (bands ! j) \<and>
            min_margin (bands ! j) < max_margin (bands ! i)"
  then obtain i j where ij: "i < length bands" "j < length bands" "i \<noteq> j"
      and ov: "two_bands_overlap (bands ! i) (bands ! j)"
    by (auto simp: two_bands_overlap_def)
  have "\<exists>a b. a < length bands \<and> b < length bands \<and> a \<noteq> b \<and>
          two_bands_overlap (bands ! a) (bands ! a) \<and> two_bands_overlap (bands ! a) (bands ! b)"
  proof (cases "two_bands_overlap (bands ! i) (bands ! i)")
    case True
    with ij ov show ?thesis by blast
  next
    case False
    with overlap_self[OF ov] have "two_bands_overlap (bands ! j) (bands ! j)" by blast
    moreover from ov have "two_bands_overlap (bands ! j) (bands ! i)"
      by (simp add: two_bands_overlap_sym)
    ultimately show ?thesis using ij by blast
  qed
  then obtain a b where ab: "a < length bands" "b < length bands" "a \<noteq> b"
      "two_bands_overlap (bands ! a) (bands ! a)" "two_bands_overlap (bands ! a) (bands ! b)"
    by blast
  have "\<exists>x y. x < y \<and> y < length bands \<and> two_bands_overlap (bands ! a) (bands ! x) \<and>
           two_bands_overlap (bands ! a) (bands ! y)"
  proof (cases "a < b")
    case True
    with ab show ?thesis by blast
  next
    case False
    with ab have "b < a" by simp
    with ab show ?thesis by blast
  qed
  then have "1 < length (filter (\<lambda>band2. two_bands_overlap (bands ! a) band2) bands)"
    unfolding filter_two_iff .
  with ab(1) show "bands_overlap bands"
    by (auto simp: bands_overlap_def bands_overlap_loop_iff)
qed

lemma trace_emit [simp]: "trace (emit e w) = trace w @ [e]"
  by (simp add: emit_def)

lemma emit_fields [simp]:
  "otc_orders (emit e w) = otc_orders w"
  "balance_of (emit e w) = balance_of w"
  "eth_balance (emit e w) = eth_balance w"
  "bands_config (emit e w) = bands_config w"
  "price_feed (emit e w) = price_feed w"
  "last_offer_id (emit e w) = last_offer_id w"
  "tx_fee (emit e w) = tx_fee w"
  by (simp_all add: emit_def)

lemma ex_bands_overlap: "bands_overlap [ex_band1, ex_band2]"
  by (simp add: bands_overlap_def two_bands_overlap_def ex_band1_def ex_band2_def)

lemma ex_bands_no_overlap: "\<not> bands_overlap [ex_band1]"
  by (simp add: bands_overlap_def two_bands_overlap_def ex_band1_def)

text \<open>
  C3. Fail-closed configuration: when the buy bands overlap or the sell bands overlap,
  \<open>band_configuration\<close> returns the empty list for both sides.
\<close>

theorem band_configuration_fail_closed:
  assumes "bands_overlap (fst (bands_config w)) \<or> bands_overlap (snd (bands_config w))"
  shows "fst (band_configuration w) = ([], [])"
  using assms by (simp add: band_configuration_def Let_def)

theorem band_configuration_fail_closed_witness:
  "bands_overlap (fst (bands_config ex_world)) \<and> \<not> bands_overlap (snd (bands_config ex_world)) \<and>
   fst (band_configuration ex_world) = ([], [])"
proof -
  have h: "bands_overlap (fst (bands_config ex_world)) \<or> bands_overlap (snd (bands_config ex_world))"
    by (simp add: ex_world_def ex_bands_overlap)
  show ?thesis
    using band_configuration_fail_closed [OF h]
    by (simp add: ex_world_def ex_bands_overlap ex_bands_no_overlap)
qed

section \<open>Events and fields of the steps of a pass\<close>

lemma otc_kill_fields [simp]:
  "trace (otc_kill k oid g w) = trace w"
  "bands_config (otc_kill k oid g w) = bands_config w"
  "price_feed (otc_kill k oid g w) = price_feed w"
  "last_offer_id (otc_kill k oid g w) = last_offer_id w"
  "tx_fee (otc_kill k oid g w) = tx_fee w"
  by (simp_all add: otc_kill_def Let_def)

lemma otc_make_fields [simp]:
  "trace (otc_make k t g w) = trace w"
  "bands_config (otc_make k t g w) = bands_config w"
  "price_feed (otc_make k t g w) = price_feed w"
  "tx_fee (otc_make k t g w) = tx_fee w"
  by (simp_all add: otc_make_def)

lemma with_gas_price_eq:
  "with_gas_price gas xs =
     (if xs = [] then Inr []
      else case gas of Inl e \<Rightarrow> Inl e | Inr g \<Rightarrow> Inr (map (\<lambda>x. (x, g)) xs))"
  by (induction xs) (auto split: sum.splits if_splits)

lemma with_gas_price_items: "with_gas_price gas xs = Inr txs \<Longrightarrow> map fst txs = xs"
  by (auto simp: with_gas_price_eq comp_def split: if_splits sum.splits)

lemma synchronize_kills_Nil [simp]: "synchronize_kills k [] w = w"
  by (simp add: synchronize_kills_def)

lemma synchronize_makes_Nil [simp]: "synchronize_makes k [] w = w"
  by (simp add: synchronize_makes_def)

lemma synchronize_kills_Cons [simp]:
  "synchronize_kills k ((order, g) # txs) w =
     synchronize_kills k txs (otc_kill k (order_id order) g (emit (Kill (order_id order) g) w))"
  by (simp add: synchronize_kills_def)

lemma synchronize_makes_Cons [simp]:
  "synchronize_makes k ((t, g) # txs) w =
     synchronize_makes k txs (otc_make k t g (emit (Make t g) w))"
  by (simp add: synchronize_makes_def)

lemma trace_synchronize_kills [simp]:
  "trace (synchronize_kills k txs w) =
     trace w @ map (\<lambda>(order, g). Kill (order_id order) g) txs"
  by (induction txs arbitrary: w) auto

lemma trace_synchronize_makes [simp]:
  "trace (synchronize_makes k txs w) = trace w @ map (\<lambda>(t, g). Make t g) txs"
  by (induction txs arbitrary: w) auto

lemma synchronize_kills_fields [simp]:
  "bands_config (synchronize_kills k txs w) = bands_config w"
  "price_feed (synchronize_kills k txs w) = price_feed w"
  "last_offer_id (synchronize_kills k txs w) = last_offer_id w"
  "tx_fee (synchronize_kills k txs w) = tx_fee w"
  by (induction txs arbitrary: w) auto

lemma synchronize_makes_fields [simp]:
  "bands_config (synchronize_makes k txs w) = bands_config w"
  "price_feed (synchronize_makes k txs w) = price_feed w"
  "tx_fee (synchronize_makes k txs w) = tx_fee w"
  by (induction txs arbitrary: w) auto

lemma cancel_intents_append [simp]:
  "cancel_intents (xs @ ys) = cancel_intents xs @ cancel_intents ys"
  by (induction xs rule: cancel_intents.induct) simp_all

lemma place_intents_append [simp]:
  "place_intents (xs @ ys) = place_intents xs @ place_intents ys"
  by (induction xs rule: place_intents.induct) simp_all

lemma cancel_intents_kills [simp]:
  "cancel_intents (map (\<lambda>(order, g). Kill (order_id order) g) txs) = map (order_id \<circ> fst) txs"
  by (induction txs) auto

lemma place_intents_kills [simp]:
  "place_intents (map (\<lambda>(order, g). Kill (order_id order) g) txs) = []"
  by (induction txs) auto

lemma cancel_intents_kills_gas [simp]:
  "cancel_intents (map (\<lambda>order. Kill (order_id order) g) orders) = map order_id orders"
  by (induction orders) auto

lemma place_intents_kills_gas [simp]:
  "place_intents (map (\<lambda>order. Kill (order_id order) g) orders) = []"
  by (induction orders) auto

lemma cancel_intents_makes [simp]: "cancel_intents (map (\<lambda>(t, g). Make t g) txs) = []"
  by (induction txs) auto

lemma place_intents_makes [simp]: "place_intents (map (\<lambda>(t, g). Make t g) txs) = map fst txs"
  by (induction txs) auto

lemma cancel_orders_Nil [simp]: "cancel_orders k [] w = Inr w"
  by (simp add: cancel_orders_def)

lemma cancel_orders_gas:
  "gas_price_for_order_cancellation k = Inr g \<Longrightarrow>
   cancel_orders k orders w = Inr (synchronize_kills k (map (\<lambda>order. (order, g)) orders) w)"
  by (simp add: cancel_orders_def with_gas_price_eq)

lemma cancel_orders_raises:
  "gas_price_for_order_cancellation k = Inl e \<Longrightarrow> orders \<noteq> [] \<Longrightarrow>
   cancel_orders k orders w = Inl e"
  by (simp add: cancel_orders_def with_gas_price_eq)

lemma cancel_orders_Inr:
  assumes "cancel_orders k orders w = Inr w'"
  obtains txs where "map fst txs = orders" "w' = synchronize_kills k txs w"
  using assms
  by (auto simp: cancel_orders_def split: sum.splits dest: with_gas_price_items)

lemma emitted_eq: "trace w' = trace w @ es \<Longrightarrow> emitted w w' = es"
  by (simp add: emitted_def)

lemma band_configuration_fst:
  "fst (band_configuration w) =
     (if bands_overlap (fst (bands_config w)) \<or> bands_overlap (snd (bands_config w))
      then ([], []) else bands_config w)"
  by (simp add: band_configuration_def Let_def)

lemma band_configuration_snd:
  "snd (band_configuration w) =
     w\<lparr>trace := trace w @ Get_config #
       (if bands_overlap (fst (bands_config w)) \<or> bands_overlap (snd (bands_config w))
        then [Terminate ''Bands in the config file overlap. Terminating the keeper.'']
        else [])\<rparr>"
  by (simp add: band_configuration_def Let_def terminate_def emit_def)

lemma trace_band_configuration:
  "trace (snd (band_configuration w)) =
     trace w @ Get_config #
       (if bands_overlap (fst (bands_config w)) \<or> bands_overlap (snd (bands_config w))
        then [Terminate ''Bands in the config file overlap. Terminating the keeper.'']
        else [])"
  by (simp add: band_configuration_snd)

lemma band_configuration_fields [simp]:
  "otc_orders (snd (band_configuration w)) = otc_orders w"
  "balance_of (snd (band_configuration w)) = balance_of w"
  "price_feed (snd (band_configuration w)) = price_feed w"
  "last_offer_id (snd (band_configuration w)) = last_offer_id w"
  "eth_balance (snd (band_configuration w)) = eth_balance w"
  "bands_config (snd (band_configuration w)) = bands_config w"
  "tx_fee (snd (band_configuration w)) = tx_fee w"
  by (simp_all add: band_configuration_snd)

section \<open>The branches of a pass\<close>

lemma cancel_all_orders_eq:
  "cancel_all_orders k w =
     cancel_orders k (filter (\<lambda>order. owner order = our_address k) (otc_orders w))
       (emit Get_orders w)"
  by (simp add: cancel_all_orders_def our_orders_def)

lemma sync_eth_low:
  assumes "eth_balance w < min_eth_balance k"
  shows "synchronize_orders lib k w =
     cancel_all_orders k
       (terminate ''Keeper balance is below the minimum, terminating.'' (emit Eth_balance w))"
  using assms by (simp add: synchronize_orders_def Let_def)

lemma sync_no_price_eq:
  assumes "price_feed w = None" "\<not> eth_balance w < min_eth_balance k"
  shows "synchronize_orders lib k w =
     cancel_all_orders k
       (emit (Warning ''Cancelling all orders as no price feed available.'')
          (emit Get_price (emit Get_orders
             (snd (band_configuration (emit Eth_balance w))))))"
proof -
  obtain bands w1 where bc: "band_configuration (emit Eth_balance w) = (bands, w1)"
    by (cases "band_configuration (emit Eth_balance w)")
  then have w1: "w1 = snd (band_configuration (emit Eth_balance w))" by simp
  have "price_feed w1 = None" unfolding w1 using assms(1) by simp
  then show ?thesis
    using assms(2) bc
    by (simp add: synchronize_orders_def Let_def our_orders_def get_price_def
        split: prod.splits)
qed

lemma top_up_bands_eq:
  "top_up_bands lib k ours bb sb p w =
     (case top_up_buy_loop lib k ours p bb (balance_of w (sai k)) of
        Inl (e, yielded) \<Rightarrow>
          (case with_gas_price (gas_price_for_order_placement k) yielded of
             Inl e' \<Rightarrow> Inl e'
           | Inr txs \<Rightarrow> Inl e)
      | Inr (rb, buys) \<Rightarrow>
          (case with_gas_price (gas_price_for_order_placement k)
                  (buys @ snd (top_up_sell_loop lib k ours p sb (balance_of w (gem k)))) of
             Inl e \<Rightarrow> Inl e
           | Inr txs \<Rightarrow>
               Inr (synchronize_makes k txs
                      (emit (Balance_of (gem k)) (emit (Balance_of (sai k)) w)))))"
  by (simp add: top_up_bands_def top_up_buy_bands_def top_up_sell_bands_def Let_def
      split: sum.splits prod.splits)

lemma top_up_bands_empty:
  "top_up_bands lib k ours [] [] p w =
     Inr (emit (Balance_of (gem k)) (emit (Balance_of (sai k)) w))"
  by (simp add: top_up_bands_eq)

lemma sync_main:
  assumes "\<not> eth_balance w < min_eth_balance k"
    and "\<not> (bands_overlap (fst (bands_config w)) \<or> bands_overlap (snd (bands_config w)))"
    and "price_feed w = Some p"
  shows "synchronize_orders lib k w =
     (case cancel_orders k
             (excessive_buy_orders lib k
                (filter (\<lambda>order. owner order = our_address k) (otc_orders w))
                (fst (bands_config w)) p @
              excessive_sell_orders lib k
                (filter (\<lambda>order. owner order = our_address k) (otc_orders w))
                (snd (bands_config w)) p @
              outside_orders lib k
                (filter (\<lambda>order. owner order = our_address k) (otc_orders w))
                (fst (bands_config w)) (snd (bands_config w)) p)
             (emit Get_price (emit Get_orders (emit Get_config (emit Eth_balance w)))) of
        Inl e \<Rightarrow> Inl e
      | Inr w4 \<Rightarrow>
          top_up_bands lib k (filter (\<lambda>order. owner order = our_address k) (otc_orders w4))
            (fst (bands_config w)) (snd (bands_config w)) p (emit Get_orders w4))"
proof -
  have bc: "band_configuration (emit Eth_balance w) =
      ((fst (bands_config w), snd (bands_config w)), emit Get_config (emit Eth_balance w))"
    using assms(2) by (simp add: band_configuration_def Let_def)
  show ?thesis
    using assms(1,3)
    by (simp add: synchronize_orders_def Let_def bc our_orders_def get_price_def
        case_prod_beta split: sum.splits)
qed

lemma sync_overlap_price_eq:
  assumes "\<not> eth_balance w < min_eth_balance k"
    and "bands_overlap (fst (bands_config w)) \<or> bands_overlap (snd (bands_config w))"
    and "price_feed w = Some p"
  shows "synchronize_orders lib k w =
     (case cancel_orders k
             (our_buy_orders k (filter (\<lambda>order. owner order = our_address k) (otc_orders w)) @
              our_sell_orders k (filter (\<lambda>order. owner order = our_address k) (otc_orders w)))
             (emit Get_price (emit Get_orders
                (snd (band_configuration (emit Eth_balance w))))) of
        Inl e \<Rightarrow> Inl e
      | Inr w4 \<Rightarrow>
          Inr (emit (Balance_of (gem k)) (emit (Balance_of (sai k)) (emit Get_orders w4))))"
proof -
  have bc: "band_configuration (emit Eth_balance w) =
      (([], []), snd (band_configuration (emit Eth_balance w)))"
    using assms(2) by (simp add: band_configuration_def Let_def)
  show ?thesis
    using assms(1,3)
    apply (simp add: synchronize_orders_def Let_def)
    apply (subst bc)
    apply (simp add: our_orders_def get_price_def
        excessive_buy_orders_def excessive_sell_orders_def outside_orders_def
        outside_any_band_orders_def top_up_bands_empty split: sum.splits)
    done
qed

text \<open>The traces of the three branches that only cancel, for a keeper with a gas price.\<close>

lemma sync_eth_low_trace:
  assumes "eth_balance w < min_eth_balance k"
    and "gas_price_for_order_cancellation k = Inr g"
  shows "\<exists>w'. synchronize_orders lib k w = Inr w' \<and>
           trace w' = trace w @
             [Eth_balance, Terminate ''Keeper balance is below the minimum, terminating.'',
              Get_orders] @
             map (\<lambda>order. Kill (order_id order) g)
               (filter (\<lambda>order. owner order = our_address k) (otc_orders w))"
  by (simp add: sync_eth_low [OF assms(1)] cancel_all_orders_eq cancel_orders_gas [OF assms(2)]
      terminate_def comp_def)

lemma sync_no_price:
  assumes "price_feed w = None" "\<not> eth_balance w < min_eth_balance k"
    and "gas_price_for_order_cancellation k = Inr g"
  shows "\<exists>w'. synchronize_orders lib k w = Inr w' \<and>
           trace w' = trace w @ [Eth_balance, Get_config] @
             (if bands_overlap (fst (bands_config w)) \<or> bands_overlap (snd (bands_config w))
              then [Terminate ''Bands in the config file overlap. Terminating the keeper.'']
              else []) @
             [Get_orders, Get_price,
              Warning ''Cancelling all orders as no price feed available.'', Get_orders] @
             map (\<lambda>order. Kill (order_id order) g)
               (filter (\<lambda>order. owner order = our_address k) (otc_orders w))"
  by (simp add: sync_no_price_eq [OF assms(1,2)] cancel_all_orders_eq
      cancel_orders_gas [OF assms(3)] trace_band_configuration comp_def)

lemma sync_overlap_price:
  assumes "\<not> eth_balance w < min_eth_balance k"
    and "bands_overlap (fst (bands_config w)) \<or> bands_overlap (snd (bands_config w))"
    and "price_feed w = Some p"
    and "gas_price_for_order_cancellation k = Inr g"
  shows "\<exists>w'. synchronize_orders lib k w = Inr w' \<and>
           trace w' = trace w @
             [Eth_balance, Get_config,
              Terminate ''Bands in the config file overlap. Terminating the keeper.'',
              Get_orders, Get_price] @
             map (\<lambda>order. Kill (order_id order) g)
               (our_buy_orders k (filter (\<lambda>order. owner order = our_address k) (otc_orders w)) @
                our_sell_orders k (filter (\<lambda>order. owner order = our_address k) (otc_orders w))) @
             [Get_orders, Balance_of (sai k), Balance_of (gem k)]"
  using assms(2)
  by (simp add: sync_overlap_price_eq [OF assms(1,2,3)] cancel_orders_gas [OF assms(4)]
      trace_band_configuration comp_def)

lemma ex_keeper_gas:
  "gas_price_for_order_cancellation ex_keeper = Inr DefaultGasPrice"
  "gas_price_for_order_placement ex_keeper = Inr DefaultGasPrice"
  by (simp_all add: gas_price_for_order_cancellation_def gas_price_for_order_placement_def
      ex_keeper_def)

lemma cancel_price_keeper_gas:
  "gas_price_for_order_cancellation cancel_price_keeper = Inl TypeError"
  by (simp add: gas_price_for_order_cancellation_def cancel_price_keeper_def ex_keeper_def)

lemma cancel_price_keeper_fields [simp]:
  "our_address cancel_price_keeper = 1" "min_eth_balance cancel_price_keeper = 5"
  "our_address ex_keeper = 1" "min_eth_balance ex_keeper = 5"
  by (simp_all add: cancel_price_keeper_def ex_keeper_def)

text \<open>
  C10. The ETH-balance guard is what the claim says for a keeper with a gas price: the
  events of the pass are the balance read, the termination request, the read of the
  order book and one cancellation per own order. The keeper started with
  \<^verbatim>\<open>--cancel-gas-price 5\<close> alone has none: with an ETH balance of 4 below the minimum 5
  and two own orders, evaluating the gas price of the first cancellation raises a
  \<^verbatim>\<open>TypeError\<close>, after the termination request and before any order is cancelled.
\<close>

theorem eth_guard_type_error:
  "synchronize_orders spec_lib cancel_price_keeper (ex_world\<lparr>eth_balance := 4\<rparr>) = Inl TypeError \<and>
   (\<exists>w'. synchronize_orders spec_lib ex_keeper (ex_world\<lparr>eth_balance := 4\<rparr>) = Inr w' \<and>
      trace w' =
        [Eth_balance, Terminate ''Keeper balance is below the minimum, terminating.'',
         Get_orders, Kill 7 DefaultGasPrice, Kill 8 DefaultGasPrice])"
proof -
  have low: "eth_balance (ex_world\<lparr>eth_balance := 4\<rparr>) < min_eth_balance cancel_price_keeper"
    "eth_balance (ex_world\<lparr>eth_balance := 4\<rparr>) < min_eth_balance ex_keeper"
    by simp_all
  have "synchronize_orders spec_lib cancel_price_keeper (ex_world\<lparr>eth_balance := 4\<rparr>) =
          Inl TypeError"
    unfolding sync_eth_low [OF low(1)] cancel_all_orders_eq
    by (rule cancel_orders_raises [OF cancel_price_keeper_gas])
      (simp add: ex_world_def ex_order_def ex_other_order_def terminate_def)
  moreover from sync_eth_low_trace [OF low(2) ex_keeper_gas(1), of spec_lib]
  have "\<exists>w'. synchronize_orders spec_lib ex_keeper (ex_world\<lparr>eth_balance := 4\<rparr>) = Inr w' \<and>
      trace w' =
        [Eth_balance, Terminate ''Keeper balance is below the minimum, terminating.'',
         Get_orders, Kill 7 DefaultGasPrice, Kill 8 DefaultGasPrice]"
    by (simp add: ex_world_def ex_order_def ex_other_order_def)
  ultimately show ?thesis by blast
qed

text \<open>
  C4. The price-unavailable fail-safe is what the claim says for a keeper with a gas
  price: the pass cancels the keeper's own orders 7 and 8 and places nothing. For the
  keeper started with \<^verbatim>\<open>--cancel-gas-price 5\<close> alone the same tick raises a
  \<^verbatim>\<open>TypeError\<close> before any order is cancelled.
\<close>

theorem no_price_type_error:
  "synchronize_orders spec_lib cancel_price_keeper ex_world = Inl TypeError \<and>
   (\<exists>w'. synchronize_orders spec_lib ex_keeper ex_world = Inr w' \<and>
      cancel_intents (emitted ex_world w') = [7, 8] \<and>
      place_intents (emitted ex_world w') = [])"
proof -
  have p: "price_feed ex_world = None" by (simp add: ex_world_def)
  have ok: "\<not> eth_balance ex_world < min_eth_balance cancel_price_keeper"
    "\<not> eth_balance ex_world < min_eth_balance ex_keeper"
    by (simp_all add: ex_world_def)
  have "synchronize_orders spec_lib cancel_price_keeper ex_world = Inl TypeError"
    unfolding sync_no_price_eq [OF p ok(1)] cancel_all_orders_eq
    by (rule cancel_orders_raises [OF cancel_price_keeper_gas])
      (simp add: ex_world_def ex_order_def ex_other_order_def)
  moreover from sync_no_price [OF p ok(2) ex_keeper_gas(1), of spec_lib]
  have "\<exists>w'. synchronize_orders spec_lib ex_keeper ex_world = Inr w' \<and>
      cancel_intents (emitted ex_world w') = [7, 8] \<and>
      place_intents (emitted ex_world w') = []"
    by (auto simp: emitted_def ex_world_def ex_order_def ex_other_order_def comp_def)
  ultimately show ?thesis by blast
qed

section \<open>Configuration errors\<close>

text \<open>
  C9, as stated, fails: on an overlapping configuration \<open>band_configuration\<close> requests the
  termination of the keeper.
\<close>

theorem overlap_terminates_counterexample:
  "Terminate ''Bands in the config file overlap. Terminating the keeper.''
     \<in> set (trace (snd (band_configuration ex_world)))"
  by (simp add: trace_band_configuration ex_world_def ex_bands_overlap)

text \<open>
  C9, amended. When the ETH balance is not below the minimum, the bands of a side overlap
  and the gas arguments of the keeper give a gas price for cancellations, the pass
  completes, requests the termination of the keeper, places no order, and cancels: all
  own orders when there is no price, the own buy and sell orders of the pair when there
  is one.
\<close>

theorem overlap_cancel_only_and_terminates:
  assumes "\<not> eth_balance w < min_eth_balance k"
    and "bands_overlap (fst (bands_config w)) \<or> bands_overlap (snd (bands_config w))"
    and "gas_price_for_order_cancellation k = Inr g"
  shows "\<exists>w'. synchronize_orders lib k w = Inr w' \<and>
           Terminate ''Bands in the config file overlap. Terminating the keeper.''
             \<in> set (emitted w w') \<and>
           place_intents (emitted w w') = [] \<and>
           cancel_intents (emitted w w') =
             (case price_feed w of
                None \<Rightarrow> map order_id (filter (\<lambda>order. owner order = our_address k) (otc_orders w))
              | Some p \<Rightarrow>
                  map order_id
                    (our_buy_orders k (filter (\<lambda>order. owner order = our_address k) (otc_orders w)) @
                     our_sell_orders k (filter (\<lambda>order. owner order = our_address k) (otc_orders w))))"
proof (cases "price_feed w")
  case None
  from sync_no_price [OF None assms(1,3), of lib] obtain w'
    where "synchronize_orders lib k w = Inr w'" and
      "trace w' = trace w @ [Eth_balance, Get_config] @
             (if bands_overlap (fst (bands_config w)) \<or> bands_overlap (snd (bands_config w))
              then [Terminate ''Bands in the config file overlap. Terminating the keeper.'']
              else []) @
             [Get_orders, Get_price,
              Warning ''Cancelling all orders as no price feed available.'', Get_orders] @
             map (\<lambda>order. Kill (order_id order) g)
               (filter (\<lambda>order. owner order = our_address k) (otc_orders w))"
    by blast
  then show ?thesis using assms(2) None
    by (auto simp: emitted_def)
next
  case (Some p)
  from sync_overlap_price [OF assms(1,2) Some assms(3), of lib] obtain w'
    where "synchronize_orders lib k w = Inr w'" and
      "trace w' = trace w @
             [Eth_balance, Get_config,
              Terminate ''Bands in the config file overlap. Terminating the keeper.'',
              Get_orders, Get_price] @
             map (\<lambda>order. Kill (order_id order) g)
               (our_buy_orders k (filter (\<lambda>order. owner order = our_address k) (otc_orders w)) @
                our_sell_orders k (filter (\<lambda>order. owner order = our_address k) (otc_orders w))) @
             [Get_orders, Balance_of (sai k), Balance_of (gem k)]"
    by blast
  then show ?thesis using Some
    by (auto simp: emitted_def)
qed

theorem overlap_cancel_only_and_terminates_witness:
  "\<not> eth_balance ex_world < min_eth_balance ex_keeper \<and>
   bands_overlap (fst (bands_config ex_world)) \<and>
   gas_price_for_order_cancellation ex_keeper = Inr DefaultGasPrice \<and>
   (\<exists>w'. synchronize_orders spec_lib ex_keeper ex_world = Inr w' \<and>
      Terminate ''Bands in the config file overlap. Terminating the keeper.''
        \<in> set (emitted ex_world w') \<and>
      place_intents (emitted ex_world w') = [] \<and>
      cancel_intents (emitted ex_world w') = [7, 8])"
proof -
  have h1: "\<not> eth_balance ex_world < min_eth_balance ex_keeper"
    by (simp add: ex_world_def)
  have h2: "bands_overlap (fst (bands_config ex_world)) \<or> bands_overlap (snd (bands_config ex_world))"
    by (simp add: ex_world_def ex_bands_overlap)
  have h3: "bands_overlap (fst (bands_config ex_world))"
    by (simp add: ex_world_def ex_bands_overlap)
  show ?thesis
    using h1 h3 ex_keeper_gas(1)
      overlap_cancel_only_and_terminates [OF h1 h2 ex_keeper_gas(1), of spec_lib]
    by (simp add: ex_world_def ex_order_def ex_other_order_def)
qed

section \<open>Properties of the order classification\<close>

text \<open>
  C8, as stated, fails: an own order on another token pair is in neither list, so
  \<open>our_sell_orders\<close> is not the complement of \<open>our_buy_orders\<close> within the own orders.
\<close>

theorem sell_not_complement_counterexample:
  "ex_other_order \<notin> set (our_buy_orders ex_keeper [ex_order, ex_other_order]) \<and>
   ex_other_order \<notin> set (our_sell_orders ex_keeper [ex_order, ex_other_order])"
  by (simp add: our_sell_orders_def our_buy_orders_def ex_keeper_def ex_order_def
      ex_other_order_def)

text \<open>
  C8, amended. With SAI and W-ETH two different tokens, \<open>our_buy_orders\<close> and
  \<open>our_sell_orders\<close> are disjoint, together they are the own orders on the pair of the
  keeper, and within those \<open>our_sell_orders\<close> is the complement of \<open>our_buy_orders\<close>.
\<close>

theorem sell_complement_on_pair:
  assumes "sai k \<noteq> gem k"
  shows "set (our_buy_orders k ours) \<inter> set (our_sell_orders k ours) = {} \<and>
         our_sell_orders k ours =
           filter (\<lambda>order. order \<notin> set (our_buy_orders k ours)) (filter (on_pair k) ours) \<and>
         set (our_buy_orders k ours) \<union> set (our_sell_orders k ours) =
           set (filter (on_pair k) ours)"
proof -
  have 1: "set (our_buy_orders k ours) \<inter> set (our_sell_orders k ours) = {}"
    using assms by (auto simp: our_buy_orders_def our_sell_orders_def)
  have 2: "our_sell_orders k ours =
           filter (\<lambda>order. order \<notin> set (our_buy_orders k ours)) (filter (on_pair k) ours)"
    using assms unfolding our_buy_orders_def our_sell_orders_def on_pair_def
    by (auto intro!: filter_cong)
  have 3: "set (our_buy_orders k ours) \<union> set (our_sell_orders k ours) =
           set (filter (on_pair k) ours)"
    by (auto simp: our_buy_orders_def our_sell_orders_def on_pair_def)
  from 1 2 3 show ?thesis by blast
qed

theorem sell_complement_on_pair_witness:
  "sai ex_keeper \<noteq> gem ex_keeper \<and>
   our_buy_orders ex_keeper [ex_order, ex_other_order] = [] \<and>
   our_sell_orders ex_keeper [ex_order, ex_other_order] = [ex_order] \<and>
   filter (on_pair ex_keeper) [ex_order, ex_other_order] = [ex_order]"
proof -
  have h: "sai ex_keeper \<noteq> gem ex_keeper" by (simp add: ex_keeper_def)
  show ?thesis
    using h sell_complement_on_pair [OF h, of "[ex_order, ex_other_order]"]
    by (simp add: our_sell_orders_def our_buy_orders_def on_pair_def ex_keeper_def ex_order_def
      ex_other_order_def)
qed
section \<open>Properties of the top-up\<close>

lemma top_up_sell_band_balance:
  assumes "0 \<le> our_balance"
    and "top_up_sell_band lib k ours p band our_balance = (b', zs)"
  shows "0 \<le> b' \<and> b' \<le> our_balance \<and> sum_list (map have_amount zs) \<le> our_balance - b'"
  using assms
  by (auto simp: top_up_sell_band_def Let_def split: if_splits)

lemma top_up_buy_band_balance:
  assumes "0 \<le> our_balance"
    and "top_up_buy_band lib k ours p band our_balance = Inr (b', zs)"
  shows "0 \<le> b' \<and> b' \<le> our_balance \<and> sum_list (map have_amount zs) \<le> our_balance - b'"
  using assms
  by (auto simp: top_up_buy_band_def Let_def split: if_splits option.splits)

lemma top_up_sell_loop_balance:
  assumes "0 \<le> our_balance"
    and "top_up_sell_loop lib k ours p bands our_balance = (final, yielded)"
  shows "0 \<le> final \<and> final \<le> our_balance \<and>
         sum_list (map have_amount yielded) \<le> our_balance - final"
  using assms
proof (induction bands arbitrary: our_balance final yielded)
  case Nil
  then show ?case by simp
next
  case (Cons band bands)
  obtain b1 zs where step: "top_up_sell_band lib k ours p band our_balance = (b1, zs)"
    by (cases "top_up_sell_band lib k ours p band our_balance")
  obtain b2 rest where loop: "top_up_sell_loop lib k ours p bands b1 = (b2, rest)"
    by (cases "top_up_sell_loop lib k ours p bands b1")
  from Cons.prems(2) step loop have eq: "final = b2" "yielded = zs @ rest" by simp_all
  from top_up_sell_band_balance [OF Cons.prems(1) step]
  have s: "0 \<le> b1" "b1 \<le> our_balance" "sum_list (map have_amount zs) \<le> our_balance - b1"
    by simp_all
  from Cons.IH [OF s(1) loop]
  have l: "0 \<le> b2" "b2 \<le> b1" "sum_list (map have_amount rest) \<le> b1 - b2" by simp_all
  from s l eq show ?case by simp
qed

lemma top_up_buy_loop_balance:
  assumes "0 \<le> our_balance"
    and "top_up_buy_loop lib k ours p bands our_balance = Inr (final, yielded)"
  shows "0 \<le> final \<and> final \<le> our_balance \<and>
         sum_list (map have_amount yielded) \<le> our_balance - final"
  using assms
proof (induction bands arbitrary: our_balance final yielded)
  case Nil
  then show ?case by simp
next
  case (Cons band bands)
  from Cons.prems(2) obtain b1 zs where
    step: "top_up_buy_band lib k ours p band our_balance = Inr (b1, zs)"
    by (auto split: sum.splits prod.splits)
  with Cons.prems(2) obtain b2 rest where
    loop: "top_up_buy_loop lib k ours p bands b1 = Inr (b2, rest)"
    by (auto split: sum.splits prod.splits)
  from Cons.prems(2) step loop have eq: "final = b2" "yielded = zs @ rest" by simp_all
  from top_up_buy_band_balance [OF Cons.prems(1) step]
  have s: "0 \<le> b1" "b1 \<le> our_balance" "sum_list (map have_amount zs) \<le> our_balance - b1"
    by simp_all
  from Cons.IH [OF s(1) loop]
  have l: "0 \<le> b2" "b2 \<le> b1" "sum_list (map have_amount rest) \<le> b1 - b2" by simp_all
  from s l eq show ?case by simp
qed

lemma top_up_sell_loop_append:
  "top_up_sell_loop lib k ours p (xs @ ys) our_balance =
     (case top_up_sell_loop lib k ours p xs our_balance of
        (b, y1) \<Rightarrow> (case top_up_sell_loop lib k ours p ys b of (b', y2) \<Rightarrow> (b', y1 @ y2)))"
  by (induction xs arbitrary: our_balance) (simp_all split: prod.splits)

lemma top_up_buy_loop_append:
  "top_up_buy_loop lib k ours p (xs @ ys) our_balance =
     (case top_up_buy_loop lib k ours p xs our_balance of
        Inl (e, y1) \<Rightarrow> Inl (e, y1)
      | Inr (b, y1) \<Rightarrow>
          (case top_up_buy_loop lib k ours p ys b of
             Inl (e, y2) \<Rightarrow> Inl (e, y1 @ y2)
           | Inr (b', y2) \<Rightarrow> Inr (b', y1 @ y2)))"
  by (induction xs arbitrary: our_balance) (simp_all split: prod.splits sum.splits)

lemma top_up_sell_loop_snoc:
  "top_up_sell_loop lib k ours p (pre @ [band]) our_balance =
     (case top_up_sell_loop lib k ours p pre our_balance of
        (b, ys) \<Rightarrow> (case top_up_sell_band lib k ours p band b of (b', zs) \<Rightarrow> (b', ys @ zs)))"
  by (simp add: top_up_sell_loop_append split: prod.splits)

lemma top_up_buy_loop_snoc:
  "top_up_buy_loop lib k ours p (pre @ [band]) our_balance =
     (case top_up_buy_loop lib k ours p pre our_balance of
        Inl (e, ys) \<Rightarrow> Inl (e, ys)
      | Inr (b, ys) \<Rightarrow>
          (case top_up_buy_band lib k ours p band b of
             Inl e \<Rightarrow> Inl (e, ys)
           | Inr (b', zs) \<Rightarrow> Inr (b', ys @ zs)))"
  by (simp add: top_up_buy_loop_append split: prod.splits sum.splits)


text \<open>
  C5. Balance conservation of a top-up pass that starts with a non-negative balance:
  the running balance ends non-negative and not above the start, the amounts of the
  orders yielded sum to at most what the running balance lost (each reservation takes
  its amount off the running balance, so that loss is the total reserved, and it is at
  most the starting balance), and from each band to the next the running balance does
  not grow and is not negative. On the buy side this holds whenever the pass does not
  raise, and a pass that gets through one more band got through the bands before it.
\<close>

theorem top_up_balance_conservation:
  assumes "0 \<le> our_balance"
  shows "(case top_up_sell_loop lib k ours p sell_bands our_balance of
            (final, yielded) \<Rightarrow>
              0 \<le> final \<and> final \<le> our_balance \<and>
              sum_list (map have_amount yielded) \<le> our_balance - final) \<and>
         (\<forall>n<length sell_bands.
            0 \<le> fst (top_up_sell_loop lib k ours p (take (Suc n) sell_bands) our_balance) \<and>
            fst (top_up_sell_loop lib k ours p (take (Suc n) sell_bands) our_balance)
              \<le> fst (top_up_sell_loop lib k ours p (take n sell_bands) our_balance)) \<and>
         (case top_up_buy_loop lib k ours p buy_bands our_balance of
            Inl e \<Rightarrow> True
          | Inr (final, yielded) \<Rightarrow>
              0 \<le> final \<and> final \<le> our_balance \<and>
              sum_list (map have_amount yielded) \<le> our_balance - final) \<and>
         (\<forall>n<length buy_bands.
            case top_up_buy_loop lib k ours p (take (Suc n) buy_bands) our_balance of
              Inl e \<Rightarrow> True
            | Inr (b', ys') \<Rightarrow>
                (case top_up_buy_loop lib k ours p (take n buy_bands) our_balance of
                   Inl e \<Rightarrow> False
                 | Inr (b, ys) \<Rightarrow> 0 \<le> b' \<and> b' \<le> b))"
proof -
  have sell_total:
    "case top_up_sell_loop lib k ours p sell_bands our_balance of
       (final, yielded) \<Rightarrow>
         0 \<le> final \<and> final \<le> our_balance \<and>
         sum_list (map have_amount yielded) \<le> our_balance - final"
    using top_up_sell_loop_balance [OF assms, of lib k ours p sell_bands]
    by (simp split: prod.splits)
  have sell_step:
    "0 \<le> fst (top_up_sell_loop lib k ours p (take (Suc n) sell_bands) our_balance) \<and>
     fst (top_up_sell_loop lib k ours p (take (Suc n) sell_bands) our_balance)
       \<le> fst (top_up_sell_loop lib k ours p (take n sell_bands) our_balance)"
    if n: "n < length sell_bands" for n
  proof -
    obtain b ys where pre: "top_up_sell_loop lib k ours p (take n sell_bands) our_balance = (b, ys)"
      by (cases "top_up_sell_loop lib k ours p (take n sell_bands) our_balance")
    obtain b' zs where step: "top_up_sell_band lib k ours p (sell_bands ! n) b = (b', zs)"
      by (cases "top_up_sell_band lib k ours p (sell_bands ! n) b")
    from top_up_sell_loop_balance [OF assms pre] have "0 \<le> b" by simp
    from top_up_sell_band_balance [OF this step] have "0 \<le> b'" "b' \<le> b" by simp_all
    then show ?thesis
      using pre step n by (simp add: take_Suc_conv_app_nth top_up_sell_loop_snoc)
  qed
  have buy_total:
    "case top_up_buy_loop lib k ours p buy_bands our_balance of
       Inl e \<Rightarrow> True
     | Inr (final, yielded) \<Rightarrow>
         0 \<le> final \<and> final \<le> our_balance \<and>
         sum_list (map have_amount yielded) \<le> our_balance - final"
    using top_up_buy_loop_balance [OF assms, of lib k ours p buy_bands]
    by (simp split: prod.splits sum.splits)
  have buy_step:
    "case top_up_buy_loop lib k ours p (take (Suc n) buy_bands) our_balance of
       Inl e \<Rightarrow> True
     | Inr (b', ys') \<Rightarrow>
         (case top_up_buy_loop lib k ours p (take n buy_bands) our_balance of
            Inl e \<Rightarrow> False
          | Inr (b, ys) \<Rightarrow> 0 \<le> b' \<and> b' \<le> b)"
    if n: "n < length buy_bands" for n
  proof (cases "top_up_buy_loop lib k ours p (take n buy_bands) our_balance")
    case (Inl e)
    then show ?thesis using n
      by (simp add: take_Suc_conv_app_nth top_up_buy_loop_snoc)
  next
    case (Inr r)
    obtain b ys where r: "r = (b, ys)" by (cases r)
    from top_up_buy_loop_balance [OF assms Inr [unfolded r]] have b: "0 \<le> b" by simp
    show ?thesis
    proof (cases "top_up_buy_band lib k ours p (buy_bands ! n) b")
      case (Inl e)
      then show ?thesis using Inr r n
        by (simp add: take_Suc_conv_app_nth top_up_buy_loop_snoc)
    next
      case step: (Inr r')
      obtain b' zs where r': "r' = (b', zs)" by (cases r')
      from top_up_buy_band_balance [OF b step [unfolded r']] have "0 \<le> b'" "b' \<le> b"
        by simp_all
      then show ?thesis using Inr r step r' n
        by (simp add: take_Suc_conv_app_nth top_up_buy_loop_snoc)
    qed
  qed
  from sell_total sell_step buy_total buy_step show ?thesis by blast
qed

lemma spec_lib_simps [simp]:
  "SellBand_avg_price spec_lib band p = \<lfloor>of_int p * (1 + avg_margin band)\<rfloor>"
  "BuyBand_avg_price spec_lib band p = \<lfloor>of_int p * (1 - avg_margin band)\<rfloor>"
  "wad_mul spec_lib a b = (a * b) div 10 ^ 18"
  "wad_div spec_lib a b = (if b = 0 then None else Some ((a * 10 ^ 18) div b))"
  "wad_round spec_lib x n = (let q = 10 ^ nat (18 - n) in ((2 * x + q) div (2 * q)) * q)"
  "SellBand_includes spec_lib band order p =
     (wad_value p * (1 + min_margin band) \<le> sell_order_price order \<and>
      sell_order_price order \<le> wad_value p * (1 + max_margin band))"
  "BuyBand_includes spec_lib band order p =
     (wad_value p * (1 - max_margin band) \<le> buy_order_price order \<and>
      buy_order_price order \<le> wad_value p * (1 - min_margin band))"
  by (simp_all add: spec_lib_def)

lemma ex_sell_loop:
  "top_up_sell_loop spec_lib ex_keeper [] ex_price [ex_band1, ex_band2] 150 =
   (0, [\<lparr>have_token = 20, have_amount = 100, want_token = 10, want_amount = 102\<rparr>,
        \<lparr>have_token = 20, have_amount = 50, want_token = 10, want_amount = 51\<rparr>])"
  by (simp add: top_up_sell_band_def our_sell_orders_def total_amount_def Let_def
      ex_keeper_def ex_price_def ex_band1_def ex_band2_def)

lemma ex_buy_loop:
  "top_up_buy_loop spec_lib ex_keeper [] ex_price [ex_band1, ex_band2] 150 =
   Inr (0, [\<lparr>have_token = 10, have_amount = 100, want_token = 20, want_amount = 102\<rparr>,
        \<lparr>have_token = 10, have_amount = 50, want_token = 20, want_amount = 51\<rparr>])"
  by (simp add: top_up_buy_band_def our_buy_orders_def total_amount_def Let_def
      ex_keeper_def ex_price_def ex_band1_def ex_band2_def)

theorem top_up_balance_conservation_witness:
  "(0::int) \<le> 150 \<and>
   top_up_sell_loop spec_lib ex_keeper [] ex_price [ex_band1, ex_band2] 150 =
     (0, [\<lparr>have_token = 20, have_amount = 100, want_token = 10, want_amount = 102\<rparr>,
          \<lparr>have_token = 20, have_amount = 50, want_token = 10, want_amount = 51\<rparr>]) \<and>
   top_up_buy_loop spec_lib ex_keeper [] ex_price [ex_band1, ex_band2] 150 =
     Inr (0, [\<lparr>have_token = 10, have_amount = 100, want_token = 20, want_amount = 102\<rparr>,
              \<lparr>have_token = 10, have_amount = 50, want_token = 20, want_amount = 51\<rparr>]) \<and>
   (100::int) + 50 \<le> 150 - 0"
proof -
  have h: "(0::int) \<le> 150" by simp
  have c: "(100::int) + 50 \<le> 150 - 0" by simp
  show ?thesis
    using top_up_balance_conservation [OF h, of spec_lib ex_keeper "[]" ex_price
        "[ex_band1, ex_band2]" "[ex_band1, ex_band2]"] h c ex_sell_loop ex_buy_loop
    by blast
qed


text \<open>
  C6. Top-up trigger and amount. A top-up pass starts with the balance it is given and
  no order, and each further band is one step on the running balance \<open>b\<close> that the
  bands before it left: with \<open>total\<close> the total of the own orders of the side that the
  band includes and \<open>have = min (avg_amount - total) b\<close>, the step acts exactly when
  \<open>total\<close> is strictly below \<open>min_amount\<close> and \<open>have\<close> is positive and not below the dust
  cut-off; it then takes \<open>have\<close> off the running balance and yields one order of amount
  \<open>have\<close> (none when the wanted amount is not positive; on the buy side the division
  may raise instead, after the orders yielded so far). In every other case, and so
  whenever \<open>total\<close> is at or above \<open>min_amount\<close>, it yields nothing and leaves the running
  balance as it is.
\<close>

theorem top_up_trigger_and_amount:
  "top_up_sell_loop lib k ours p [] start = (start, []) \<and>
   top_up_sell_loop lib k ours p (pre @ [band]) start =
     (case top_up_sell_loop lib k ours p pre start of
        (b, ys) \<Rightarrow>
          (let total = total_amount (filter (\<lambda>order. SellBand_includes lib band order p)
                                       (our_sell_orders k ours));
               have = min (avg_amount band - total) b;
               want = wad_mul lib have
                        (wad_round lib (SellBand_avg_price lib band p) (round_places k))
           in if total < min_amount band \<and> dust_cutoff band \<le> have \<and> 0 < have
              then (b - have,
                    ys @ (if 0 < want
                          then [\<lparr>have_token = gem k, have_amount = have,
                                  want_token = sai k, want_amount = want\<rparr>]
                          else []))
              else (b, ys))) \<and>
   top_up_buy_loop lib k ours p [] start = Inr (start, []) \<and>
   top_up_buy_loop lib k ours p (pre @ [band]) start =
     (case top_up_buy_loop lib k ours p pre start of
        Inl (e, ys) \<Rightarrow> Inl (e, ys)
      | Inr (b, ys) \<Rightarrow>
          (let total = total_amount (filter (\<lambda>order. BuyBand_includes lib band order p)
                                       (our_buy_orders k ours));
               have = min (avg_amount band - total) b
           in if total < min_amount band \<and> dust_cutoff band \<le> have \<and> 0 < have
              then (case wad_div lib have
                           (wad_round lib (BuyBand_avg_price lib band p) (round_places k)) of
                      None \<Rightarrow> Inl (ZeroDivisionError, ys)
                    | Some want \<Rightarrow>
                        Inr (b - have,
                             ys @ (if 0 < want
                                   then [\<lparr>have_token = sai k, have_amount = have,
                                           want_token = gem k, want_amount = want\<rparr>]
                                   else [])))
              else Inr (b, ys)))"
proof -
  have sell: "top_up_sell_loop lib k ours p (pre @ [band]) start =
     (case top_up_sell_loop lib k ours p pre start of
        (b, ys) \<Rightarrow>
          (let total = total_amount (filter (\<lambda>order. SellBand_includes lib band order p)
                                       (our_sell_orders k ours));
               have = min (avg_amount band - total) b;
               want = wad_mul lib have
                        (wad_round lib (SellBand_avg_price lib band p) (round_places k))
           in if total < min_amount band \<and> dust_cutoff band \<le> have \<and> 0 < have
              then (b - have,
                    ys @ (if 0 < want
                          then [\<lparr>have_token = gem k, have_amount = have,
                                  want_token = sai k, want_amount = want\<rparr>]
                          else []))
              else (b, ys)))"
  proof -
    obtain b ys where pre: "top_up_sell_loop lib k ours p pre start = (b, ys)"
      by (cases "top_up_sell_loop lib k ours p pre start")
    define have_amount' where "have_amount' =
      min (avg_amount band - total_amount (filter (\<lambda>order. SellBand_includes lib band order p)
                                       (our_sell_orders k ours))) b"
    show ?thesis
      unfolding top_up_sell_loop_snoc pre top_up_sell_band_def Let_def
        have_amount'_def [symmetric]
      by simp
  qed
  have buy: "top_up_buy_loop lib k ours p (pre @ [band]) start =
     (case top_up_buy_loop lib k ours p pre start of
        Inl (e, ys) \<Rightarrow> Inl (e, ys)
      | Inr (b, ys) \<Rightarrow>
          (let total = total_amount (filter (\<lambda>order. BuyBand_includes lib band order p)
                                       (our_buy_orders k ours));
               have = min (avg_amount band - total) b
           in if total < min_amount band \<and> dust_cutoff band \<le> have \<and> 0 < have
              then (case wad_div lib have
                           (wad_round lib (BuyBand_avg_price lib band p) (round_places k)) of
                      None \<Rightarrow> Inl (ZeroDivisionError, ys)
                    | Some want \<Rightarrow>
                        Inr (b - have,
                             ys @ (if 0 < want
                                   then [\<lparr>have_token = sai k, have_amount = have,
                                           want_token = gem k, want_amount = want\<rparr>]
                                   else [])))
              else Inr (b, ys)))"
  proof (cases "top_up_buy_loop lib k ours p pre start")
    case (Inl r)
    then show ?thesis
      unfolding top_up_buy_loop_snoc by (simp split: prod.splits)
  next
    case (Inr r)
    obtain b ys where r: "r = (b, ys)" by (cases r)
    define have_amount' where "have_amount' =
      min (avg_amount band - total_amount (filter (\<lambda>order. BuyBand_includes lib band order p)
                                       (our_buy_orders k ours))) b"
    show ?thesis
      unfolding top_up_buy_loop_snoc Inr r top_up_buy_band_def Let_def
        have_amount'_def [symmetric]
      by (simp split: option.splits)
  qed
  from sell buy show ?thesis by simp
qed

text \<open>
  The second of two bands on a balance of 150: the first band has taken 100, so the
  second yields an order of \<open>min (100 - 0) 50 = 50\<close> and leaves nothing.
\<close>

theorem top_up_trigger_and_amount_witness:
  "top_up_sell_loop spec_lib ex_keeper [] ex_price ([ex_band1] @ [ex_band2]) 150 =
     (0, [\<lparr>have_token = 20, have_amount = 100, want_token = 10, want_amount = 102\<rparr>,
          \<lparr>have_token = 20, have_amount = 50, want_token = 10, want_amount = 51\<rparr>]) \<and>
   top_up_buy_loop spec_lib ex_keeper [] ex_price ([ex_band1] @ [ex_band2]) 150 =
     Inr (0, [\<lparr>have_token = 10, have_amount = 100, want_token = 20, want_amount = 102\<rparr>,
              \<lparr>have_token = 10, have_amount = 50, want_token = 20, want_amount = 51\<rparr>])"
proof -
  have s: "top_up_sell_loop spec_lib ex_keeper [] ex_price [ex_band1] 150 =
      (50, [\<lparr>have_token = 20, have_amount = 100, want_token = 10, want_amount = 102\<rparr>])"
    by (simp add: top_up_sell_band_def our_sell_orders_def total_amount_def Let_def
      ex_keeper_def ex_price_def ex_band1_def)
  have b: "top_up_buy_loop spec_lib ex_keeper [] ex_price [ex_band1] 150 =
      Inr (50, [\<lparr>have_token = 10, have_amount = 100, want_token = 20, want_amount = 102\<rparr>])"
    by (simp add: top_up_buy_band_def our_buy_orders_def total_amount_def Let_def
      ex_keeper_def ex_price_def ex_band1_def)
  have t: "total_amount (filter (\<lambda>order. SellBand_includes spec_lib ex_band2 order ex_price)
                           (our_sell_orders ex_keeper [])) = 0"
    "total_amount (filter (\<lambda>order. BuyBand_includes spec_lib ex_band2 order ex_price)
                           (our_buy_orders ex_keeper [])) = 0"
    by (simp_all add: our_sell_orders_def our_buy_orders_def total_amount_def)
  have f: "sai ex_keeper = 10" "gem ex_keeper = 20" "round_places ex_keeper = 2"
    by (simp_all add: ex_keeper_def)
  show ?thesis
    using top_up_trigger_and_amount [of spec_lib ex_keeper "[]" ex_price 150 "[ex_band1]" ex_band2]
    unfolding s b t f
    by (simp add: Let_def ex_price_def ex_band2_def)
qed

text \<open>
  C7. Dust suppression: when the amount \<open>min (avg_amount - total) our_balance\<close> is
  strictly below the band's \<open>dust_cutoff\<close>, or is not positive, the step yields no order
  and the running balance stays as it is, on both sides.
\<close>

theorem dust_suppression:
  "(min (avg_amount band -
           total_amount (filter (\<lambda>order. SellBand_includes lib band order p)
                           (our_sell_orders k ours))) our_balance < dust_cutoff band \<or>
    min (avg_amount band -
           total_amount (filter (\<lambda>order. SellBand_includes lib band order p)
                           (our_sell_orders k ours))) our_balance \<le> 0
    \<longrightarrow> top_up_sell_band lib k ours p band our_balance = (our_balance, [])) \<and>
   (min (avg_amount band -
           total_amount (filter (\<lambda>order. BuyBand_includes lib band order p)
                           (our_buy_orders k ours))) our_balance < dust_cutoff band \<or>
    min (avg_amount band -
           total_amount (filter (\<lambda>order. BuyBand_includes lib band order p)
                           (our_buy_orders k ours))) our_balance \<le> 0
    \<longrightarrow> top_up_buy_band lib k ours p band our_balance = Inr (our_balance, []))"
  by (auto simp: top_up_sell_band_def top_up_buy_band_def Let_def)

theorem dust_suppression_witness:
  "min (avg_amount ex_band1 -
          total_amount (filter (\<lambda>order. SellBand_includes spec_lib ex_band1 order ex_price)
                          (our_sell_orders ex_keeper []))) 3 < dust_cutoff ex_band1 \<and>
   top_up_sell_band spec_lib ex_keeper [] ex_price ex_band1 3 = (3, []) \<and>
   min (avg_amount ex_band1 -
          total_amount (filter (\<lambda>order. BuyBand_includes spec_lib ex_band1 order ex_price)
                          (our_buy_orders ex_keeper []))) 3 < dust_cutoff ex_band1 \<and>
   top_up_buy_band spec_lib ex_keeper [] ex_price ex_band1 3 = Inr (3, [])"
proof -
  have h1: "min (avg_amount ex_band1 -
          total_amount (filter (\<lambda>order. SellBand_includes spec_lib ex_band1 order ex_price)
                          (our_sell_orders ex_keeper []))) 3 < dust_cutoff ex_band1"
    by (simp add: total_amount_def our_sell_orders_def ex_band1_def)
  have h2: "min (avg_amount ex_band1 -
          total_amount (filter (\<lambda>order. BuyBand_includes spec_lib ex_band1 order ex_price)
                          (our_buy_orders ex_keeper []))) 3 < dust_cutoff ex_band1"
    by (simp add: total_amount_def our_buy_orders_def ex_band1_def)
  show ?thesis
    using h1 h2 dust_suppression [of ex_band1 spec_lib ex_price ex_keeper "[]" 3]
    by blast
qed

section \<open>A second pass after a completed first pass\<close>

lemma total_amount_sum: "total_amount orders = sum_list (map sell_how_much orders)"
proof -
  have "foldl (+) a (map sell_how_much orders) = a + sum_list (map sell_how_much orders)" for a
    by (induction orders arbitrary: a) simp_all
  then show ?thesis by (simp add: total_amount_def)
qed

lemma total_amount_append:
  "total_amount (xs @ ys) = total_amount xs + total_amount ys"
  by (simp add: total_amount_sum)

lemma total_amount_Nil [simp]: "total_amount [] = 0"
  by (simp add: total_amount_sum)

lemma total_amount_nonneg:
  "list_all (\<lambda>order. 0 \<le> sell_how_much order) orders \<Longrightarrow> 0 \<le> total_amount orders"
  by (induction orders) (simp_all add: total_amount_sum)

lemma core_band_cases:
  assumes "core_band tot want b r = Some (r1, zs)"
  obtains
    (skip) "r1 = r" "zs = []"
      "\<not> tot b < min_amount b \<or>
       \<not> (dust_cutoff b \<le> min (avg_amount b - tot b) r \<and> 0 < min (avg_amount b - tot b) r)"
  | (reserved) v where "tot b < min_amount b" "dust_cutoff b \<le> min (avg_amount b - tot b) r"
      "0 < min (avg_amount b - tot b) r" "want b (min (avg_amount b - tot b) r) = Some v"
      "\<not> 0 < v" "r1 = r - min (avg_amount b - tot b) r" "zs = []"
  | (placed) v where "tot b < min_amount b" "dust_cutoff b \<le> min (avg_amount b - tot b) r"
      "0 < min (avg_amount b - tot b) r" "want b (min (avg_amount b - tot b) r) = Some v"
      "0 < v" "r1 = r - min (avg_amount b - tot b) r" "zs = [(min (avg_amount b - tot b) r, v)]"
proof -
  define h where "h = min (avg_amount b - tot b) r"
  show thesis
  proof (cases "tot b < min_amount b \<and> dust_cutoff b \<le> h \<and> 0 < h")
    case False
    with assms have "r1 = r" "zs = []"
      by (auto simp: core_band_def Let_def h_def [symmetric] split: if_splits)
    with False show thesis using skip by (simp add: h_def)
  next
    case True
    show thesis
    proof (cases "want b h")
      case None
      with True assms show thesis
        by (simp add: core_band_def Let_def h_def [symmetric])
    next
      case (Some v)
      show thesis
      proof (cases "0 < v")
        case pos: True
        with True Some assms have "r1 = r - h" "zs = [(h, v)]"
          by (simp_all add: core_band_def Let_def h_def [symmetric])
        with True Some pos show thesis using placed [of v] by (simp add: h_def)
      next
        case neg: False
        with True Some assms have "r1 = r - h" "zs = []"
          by (simp_all add: core_band_def Let_def h_def [symmetric])
        with True Some neg show thesis using reserved [of v] by (simp add: h_def)
      qed
    qed
  qed
qed

lemma core_band_balance:
  assumes "0 \<le> r" "core_band tot want b r = Some (r1, zs)"
  shows "0 \<le> r1 \<and> r1 \<le> r \<and> sum_list (map fst zs) \<le> r - r1 \<and> 0 \<le> sum_list (map fst zs)"
  using assms(2)
proof (cases rule: core_band_cases)
  case skip
  then show ?thesis using assms(1) by simp
next
  case (reserved v)
  then show ?thesis using assms(1) by simp
next
  case (placed v)
  then show ?thesis using assms(1) by simp
qed

lemma core_loop_balance:
  assumes "0 \<le> r" "core_loop tot want bs r = Some (rf, ys)"
  shows "0 \<le> rf \<and> rf \<le> r \<and> sum_list (map fst ys) \<le> r - rf \<and> 0 \<le> sum_list (map fst ys)"
  using assms
proof (induction bs arbitrary: r ys)
  case Nil
  then show ?case by simp
next
  case (Cons b bs)
  from Cons.prems(2) obtain r1 zs ys' where
    step: "core_band tot want b r = Some (r1, zs)" and
    loop: "core_loop tot want bs r1 = Some (rf, ys')" and ys: "ys = zs @ ys'"
    by (auto split: option.splits)
  from core_band_balance [OF Cons.prems(1) step] Cons.IH [OF _ loop] ys
  show ?case by auto
qed


lemma made_from_total:
  "list_all2 (made_from side) zs Ez \<Longrightarrow> total_amount Ez = sum_list (map fst zs)"
  by (induction rule: list_all2_induct) (simp_all add: total_amount_sum made_from_def)

lemma core_yields_loop:
  assumes "core_loop tot want bs r = Some (rf, ys)"
  shows "length (core_yields tot want bs r) = length bs \<and>
         concat (core_yields tot want bs r) = ys"
  using assms
proof (induction bs arbitrary: r ys)
  case Nil
  then show ?case by simp
next
  case (Cons b bs)
  from Cons.prems obtain r1 zs ys' where
    step: "core_band tot want b r = Some (r1, zs)" and
    loop: "core_loop tot want bs r1 = Some (rf, ys')" and ys: "ys = zs @ ys'"
    by (auto split: option.splits)
  from Cons.IH [OF loop] step ys show ?case by simp
qed

lemma landed_all:
  assumes "landed incl bs placed" "i < length bs" "e \<in> set (placed i)" "j < length bs"
  shows "incl (bs ! j) e = (j = i)"
  using assms unfolding landed_def by blast

lemma landed_tail:
  assumes "landed incl (b # bs) ((!) (Ez # Es))"
  shows "landed incl bs ((!) Es)"
  unfolding landed_def
proof (intro allI impI ballI)
  fix i e j
  assume "i < length bs" "e \<in> set (Es ! i)" "j < length bs"
  with landed_all [OF assms, of "Suc i" e "Suc j"]
  show "incl (bs ! j) e = (j = i)" by simp
qed

lemma landed_head:
  assumes "landed incl (b # bs) ((!) (Ez # Es))" "e \<in> set Ez"
  shows "incl b e \<and> (\<forall>b'\<in>set bs. \<not> incl b' e)"
proof -
  from landed_all [OF assms(1), of 0 e 0] assms(2) have "incl b e" by simp
  moreover have "\<not> incl b' e" if "b' \<in> set bs" for b'
  proof -
    from that obtain j where j: "j < length bs" "bs ! j = b'" by (auto simp: in_set_conv_nth)
    with landed_all [OF assms(1), of 0 e "Suc j"] assms(2) show ?thesis by simp
  qed
  ultimately show ?thesis by blast
qed

lemma landed_later:
  assumes "landed incl (b # bs) ((!) (Ez # Es))" "length Es = length bs"
    "e \<in> set (concat Es)"
  shows "\<not> incl b e"
proof -
  from assms(3) obtain E where "E \<in> set Es" "e \<in> set E" by auto
  then obtain j where j: "j < length Es" "e \<in> set (Es ! j)"
    by (metis in_set_conv_nth)
  with landed_all [OF assms(1), of "Suc j" e 0] assms(2) show ?thesis by simp
qed

lemma landed_own:
  assumes "landed incl bs ((!) Es)" "length Es = length bs" "e \<in> set (concat Es)"
  shows "\<exists>b\<in>set bs. incl b e"
proof -
  from assms(3) obtain E where "E \<in> set Es" "e \<in> set E" by auto
  then obtain j where j: "j < length Es" "e \<in> set (Es ! j)"
    by (metis in_set_conv_nth)
  with landed_all [OF assms(1), of j e j] assms(2) have "incl (bs ! j) e" by simp
  with j(1) assms(2) show ?thesis by auto
qed

lemma core_band_skip:
  assumes "\<not> tot b < min_amount b \<or>
           \<not> (dust_cutoff b \<le> min (avg_amount b - tot b) r \<and> 0 < min (avg_amount b - tot b) r)"
  shows "core_band tot want b r = Some (r, [])"
  using assms by (auto simp: core_band_def Let_def)

lemma core_band_reserved:
  assumes "tot b < min_amount b" "dust_cutoff b \<le> min (avg_amount b - tot b) r"
    "0 < min (avg_amount b - tot b) r" "want b (min (avg_amount b - tot b) r) = Some v" "\<not> 0 < v"
  shows "core_band tot want b r = Some (r - min (avg_amount b - tot b) r, [])"
  using assms by (simp add: core_band_def Let_def)

lemma filter_nonneg_total:
  "list_all (\<lambda>order. 0 \<le> sell_how_much order) orders \<Longrightarrow>
   0 \<le> total_amount (filter P orders)"
  by (rule total_amount_nonneg) (simp add: list_all_iff)


lemma core_second_pass:
  fixes incl :: "'m band \<Rightarrow> order \<Rightarrow> bool"
  assumes "landed incl bs ((!) Es)"
    and "list_all (\<lambda>b. min_amount b \<le> avg_amount b) bs"
    and "0 \<le> r"
    and "list_all (\<lambda>order. 0 \<le> sell_how_much order) orders"
    and "core_loop (\<lambda>b. total_amount (filter (incl b) orders)) want bs r = Some (rf, ys)"
    and "list_all2 (list_all2 (made_from side))
           (core_yields (\<lambda>b. total_amount (filter (incl b) orders)) want bs r) Es"
    and "\<forall>b\<in>set bs. \<forall>x\<in>set X. \<not> incl b x"
  shows "core_loop (\<lambda>b. total_amount (filter (incl b) (orders @ X @ concat Es))) want bs
           (r - sum_list (map fst ys)) = Some (rf, [])"
  using assms
proof (induction bs arbitrary: r ys Es X)
  case Nil
  then show ?case by simp
next
  case (Cons b bs)
  define tot1 where "tot1 = (\<lambda>b. total_amount (filter (incl b) orders))"
  from Cons.prems(5) obtain r1 zs ys' where
    step: "core_band tot1 want b r = Some (r1, zs)" and
    loop: "core_loop tot1 want bs r1 = Some (rf, ys')" and ys: "ys = zs @ ys'"
    unfolding tot1_def by (auto split: option.splits)
  define s' where "s' = sum_list (map fst ys')"
  from Cons.prems(6) step obtain Ez Es' where
    E: "Es = Ez # Es'" "list_all2 (made_from side) zs Ez"
       "list_all2 (list_all2 (made_from side)) (core_yields tot1 want bs r1) Es'"
    unfolding tot1_def by (auto simp: list_all2_Cons1)
  have len: "length Es' = length bs"
    using list_all2_lengthD [OF E(3)] core_yields_loop [OF loop] by simp
  note lands = Cons.prems(1) [unfolded E(1)]
  have tez: "total_amount Ez = sum_list (map fst zs)"
    by (rule made_from_total [OF E(2)])
  have fX: "filter (incl b) X = []"
    using Cons.prems(7) by (auto simp: filter_empty_conv)
  have fEz: "filter (incl b) Ez = Ez"
    using landed_head [OF lands] by (auto simp: filter_id_conv)
  have fE': "filter (incl b) (concat Es') = []"
    using landed_later [OF lands len] by (auto simp: filter_empty_conv simp del: set_concat)
  define E' where "E' = concat Es'"
  have cE: "concat Es = Ez @ E'" by (simp add: E(1) E'_def)
  have t2: "total_amount (filter (incl b) (orders @ X @ concat Es)) =
            tot1 b + sum_list (map fst zs)"
    unfolding cE using fX fEz fE' tez
    by (simp add: tot1_def E'_def total_amount_append)
  define tot2 where "tot2 = (\<lambda>b. total_amount (filter (incl b) (orders @ X @ concat Es)))"
  have t2: "tot2 b = tot1 b + sum_list (map fst zs)"
    unfolding tot2_def by (rule t2)
  from core_band_balance [OF Cons.prems(3) step]
  have r1: "0 \<le> r1" "r1 \<le> r" by simp_all
  from core_loop_balance [OF r1(1) loop]
  have rest: "0 \<le> rf" "s' \<le> r1 - rf" "0 \<le> s'"
    by (simp_all add: s'_def)
  from Cons.prems(2) have inv: "min_amount b \<le> avg_amount b" by simp
  have step2: "core_band tot2 want b (r - sum_list (map fst ys)) = Some (r1 - s', [])"
    using step
  proof (cases rule: core_band_cases)
    case skip
    have req: "r - sum_list (map fst ys) = r - s'" "r1 - s' = r - s'"
      using skip ys by (simp_all add: s'_def)
    have "core_band tot2 want b (r - s') = Some (r - s', [])"
    proof (rule core_band_skip)
      from skip(3) t2 skip(2) rest(3)
      show "\<not> tot2 b < min_amount b \<or>
            \<not> (dust_cutoff b \<le> min (avg_amount b - tot2 b) (r - s') \<and>
               0 < min (avg_amount b - tot2 b) (r - s'))"
        by auto
    qed
    then show ?thesis unfolding req .
  next
    case (reserved v)
    define h where "h = min (avg_amount b - tot1 b) r"
    have t2': "tot2 b = tot1 b" using t2 reserved(7) by simp
    have r1h: "r1 = r - h" using reserved(6) by (simp add: h_def)
    have h2: "min (avg_amount b - tot2 b) (r - s') = h"
      using rest r1h t2' unfolding h_def by auto
    have req: "r - sum_list (map fst ys) = r - s'"
      "r1 - s' = r - s' - min (avg_amount b - tot2 b) (r - s')"
      using reserved(7) ys r1h h2 by (simp_all add: s'_def)
    have "core_band tot2 want b (r - s') =
            Some (r - s' - min (avg_amount b - tot2 b) (r - s'), [])"
    proof (rule core_band_reserved)
      show "tot2 b < min_amount b" using reserved(1) t2' by simp
      show "dust_cutoff b \<le> min (avg_amount b - tot2 b) (r - s')"
        using reserved(2) h2 by (simp add: h_def)
      show "0 < min (avg_amount b - tot2 b) (r - s')"
        using reserved(3) h2 by (simp add: h_def)
      show "want b (min (avg_amount b - tot2 b) (r - s')) = Some v"
        using reserved(4) h2 by (simp add: h_def)
      show "\<not> 0 < v" by (rule reserved(5))
    qed
    then show ?thesis unfolding req .
  next
    case (placed v)
    define h where "h = min (avg_amount b - tot1 b) r"
    have t2': "tot2 b = tot1 b + h" using t2 placed(7) by (simp add: h_def)
    have r1h: "r1 = r - h" using placed(6) by (simp add: h_def)
    have req: "r - sum_list (map fst ys) = r1 - s'"
      using placed(7) ys r1h by (simp add: s'_def h_def)
    have "core_band tot2 want b (r1 - s') = Some (r1 - s', [])"
    proof (rule core_band_skip)
      show "\<not> tot2 b < min_amount b \<or>
            \<not> (dust_cutoff b \<le> min (avg_amount b - tot2 b) (r1 - s') \<and>
               0 < min (avg_amount b - tot2 b) (r1 - s'))"
      proof (cases "tot2 b < min_amount b")
        case False
        then show ?thesis by simp
      next
        case True
        with t2' inv have "h < avg_amount b - tot1 b" by simp
        then have "h = r" unfolding h_def by auto
        with r1h have "r1 = 0" by simp
        with rest have "r1 - s' \<le> 0" by simp
        then have "\<not> 0 < min (avg_amount b - tot2 b) (r1 - s')"
          by auto
        then show ?thesis by blast
      qed
    qed
    then show ?thesis unfolding req .
  qed
  have X': "\<forall>b'\<in>set bs. \<forall>x\<in>set (X @ Ez). \<not> incl b' x"
    using Cons.prems(7) landed_head [OF lands] by auto
  from Cons.prems(2) have inv': "list_all (\<lambda>b. min_amount b \<le> avg_amount b) bs" by simp
  from Cons.IH [OF landed_tail [OF lands] inv' r1(1) Cons.prems(4)
      loop [unfolded tot1_def] E(3) [unfolded tot1_def] X']
  have "core_loop (\<lambda>b. total_amount (filter (incl b) (orders @ (X @ Ez) @ concat Es'))) want bs
          (r1 - sum_list (map fst ys')) = Some (rf, [])" .
  then have "core_loop tot2 want bs (r1 - s') = Some (rf, [])"
    by (simp add: E(1) tot2_def s'_def)
  with step2 show ?case unfolding tot2_def by simp
qed

lemma core_band_sell:
  "core_band (\<lambda>b. total_amount (filter (\<lambda>order. SellBand_includes lib b order p)
                                  (our_sell_orders k ours)))
     (want_sell lib k p) band r =
   Some (case top_up_sell_band lib k ours p band r of (r1, ts) \<Rightarrow> (r1, map amounts ts))"
  by (simp add: core_band_def top_up_sell_band_def want_sell_def Let_def amounts_def)

lemma core_loop_sell:
  "core_loop (\<lambda>b. total_amount (filter (\<lambda>order. SellBand_includes lib b order p)
                                  (our_sell_orders k ours)))
     (want_sell lib k p) bs r =
   Some (case top_up_sell_loop lib k ours p bs r of (rf, ts) \<Rightarrow> (rf, map amounts ts))"
  by (induction bs arbitrary: r) (simp_all add: core_band_sell split: prod.splits)

lemma core_band_buy:
  "core_band (\<lambda>b. total_amount (filter (\<lambda>order. BuyBand_includes lib b order p)
                                  (our_buy_orders k ours)))
     (want_buy lib k p) band r =
   (case top_up_buy_band lib k ours p band r of
      Inl e \<Rightarrow> None
    | Inr (r1, ts) \<Rightarrow> Some (r1, map amounts ts))"
  by (simp add: core_band_def top_up_buy_band_def want_buy_def Let_def amounts_def
      split: option.splits)

lemma core_loop_buy:
  "core_loop (\<lambda>b. total_amount (filter (\<lambda>order. BuyBand_includes lib b order p)
                                  (our_buy_orders k ours)))
     (want_buy lib k p) bs r =
   (case top_up_buy_loop lib k ours p bs r of
      Inl e \<Rightarrow> None
    | Inr (rf, ts) \<Rightarrow> Some (rf, map amounts ts))"
  by (induction bs arbitrary: r) (simp_all add: core_band_buy split: prod.splits sum.splits)

lemma sell_band_tokens:
  "top_up_sell_band lib k ours p band r = (r1, ts) \<Longrightarrow>
   \<forall>t\<in>set ts. have_token t = gem k \<and> want_token t = sai k"
  by (auto simp: top_up_sell_band_def Let_def split: if_splits)

lemma sell_loop_tokens:
  "top_up_sell_loop lib k ours p bs r = (rf, ts) \<Longrightarrow>
   \<forall>t\<in>set ts. have_token t = gem k \<and> want_token t = sai k"
proof (induction bs arbitrary: r ts)
  case Nil
  then show ?case by simp
next
  case (Cons b bs)
  then show ?case
    by (auto split: prod.splits dest!: sell_band_tokens)
qed

lemma buy_band_tokens:
  "top_up_buy_band lib k ours p band r = Inr (r1, ts) \<Longrightarrow>
   \<forall>t\<in>set ts. have_token t = sai k \<and> want_token t = gem k"
  by (auto simp: top_up_buy_band_def Let_def split: if_splits option.splits)

lemma buy_loop_tokens:
  "top_up_buy_loop lib k ours p bs r = Inr (rf, ts) \<Longrightarrow>
   \<forall>t\<in>set ts. have_token t = sai k \<and> want_token t = gem k"
proof (induction bs arbitrary: r ts)
  case Nil
  then show ?case by simp
next
  case (Cons b bs)
  then show ?case
    by (auto split: prod.splits sum.splits dest!: buy_band_tokens)
qed


text \<open>After the first pass: no band is in excess, every new order is in a band.\<close>

lemma core_no_excess:
  fixes incl :: "'m band \<Rightarrow> order \<Rightarrow> bool"
  assumes "landed incl bs ((!) Es)"
    and "core_loop (\<lambda>b. total_amount (filter (incl b) orders)) want bs r = Some (rf, ys)"
    and "list_all2 (list_all2 (made_from side))
           (core_yields (\<lambda>b. total_amount (filter (incl b) orders)) want bs r) Es"
  shows "\<forall>b\<in>set bs. filter (incl b) (concat Es) = [] \<or>
           total_amount (filter (incl b) orders) + total_amount (filter (incl b) (concat Es))
             \<le> avg_amount b"
  using assms
proof (induction bs arbitrary: r ys Es)
  case Nil
  then show ?case by simp
next
  case (Cons b bs)
  define tot1 where "tot1 = (\<lambda>b. total_amount (filter (incl b) orders))"
  from Cons.prems(2) obtain r1 zs ys' where
    step: "core_band tot1 want b r = Some (r1, zs)" and
    loop: "core_loop tot1 want bs r1 = Some (rf, ys')" and ys: "ys = zs @ ys'"
    unfolding tot1_def by (auto split: option.splits)
  from Cons.prems(3) step obtain Ez Es' where
    E: "Es = Ez # Es'" "list_all2 (made_from side) zs Ez"
       "list_all2 (list_all2 (made_from side)) (core_yields tot1 want bs r1) Es'"
    unfolding tot1_def by (auto simp: list_all2_Cons1)
  have len: "length Es' = length bs"
    using list_all2_lengthD [OF E(3)] core_yields_loop [OF loop] by simp
  note lands = Cons.prems(1) [unfolded E(1)]
  have tez: "total_amount Ez = sum_list (map fst zs)"
    by (rule made_from_total [OF E(2)])
  have fEz: "filter (incl b) Ez = Ez"
    using landed_head [OF lands] by (auto simp: filter_id_conv)
  have fE': "filter (incl b) (concat Es') = []"
    using landed_later [OF lands len] by (auto simp: filter_empty_conv simp del: set_concat)
  define E' where "E' = concat Es'"
  have cE: "concat Es = Ez @ E'" by (simp add: E(1) E'_def)
  have head: "filter (incl b) (concat Es) = [] \<or>
              tot1 b + total_amount (filter (incl b) (concat Es)) \<le> avg_amount b"
    using step
  proof (cases rule: core_band_cases)
    case skip
    with E(2) have "Ez = []" by simp
    then show ?thesis using fE' by (simp add: cE E'_def)
  next
    case (reserved v)
    with E(2) have "Ez = []" by simp
    then show ?thesis using fE' by (simp add: cE E'_def)
  next
    case (placed v)
    then have "sum_list (map fst zs) \<le> avg_amount b - tot1 b" by simp
    then show ?thesis using fE' fEz tez by (simp add: cE E'_def)
  qed
  from Cons.IH [OF landed_tail [OF lands] loop [unfolded tot1_def] E(3) [unfolded tot1_def]]
  have IH: "\<forall>b'\<in>set bs. filter (incl b') E' = [] \<or>
              tot1 b' + total_amount (filter (incl b') E') \<le> avg_amount b'"
    by (simp add: tot1_def E'_def)
  have tail: "filter (incl b') (concat Es) = [] \<or>
              tot1 b' + total_amount (filter (incl b') (concat Es)) \<le> avg_amount b'"
    if "b' \<in> set bs" for b'
  proof -
    from that landed_head [OF lands] have "filter (incl b') Ez = []"
      by (auto simp: filter_empty_conv)
    with IH that show ?thesis by (simp add: cE)
  qed
  from head tail show ?case by (auto simp: tot1_def)
qed

lemma core_new_in_band:
  fixes incl :: "'m band \<Rightarrow> order \<Rightarrow> bool"
  assumes "landed incl bs ((!) Es)"
    and "core_loop (\<lambda>b. total_amount (filter (incl b) orders)) want bs r = Some (rf, ys)"
    and "list_all2 (list_all2 (made_from side))
           (core_yields (\<lambda>b. total_amount (filter (incl b) orders)) want bs r) Es"
  shows "\<forall>e\<in>set (concat Es). \<exists>b\<in>set bs. incl b e"
proof
  fix e assume e: "e \<in> set (concat Es)"
  have len: "length Es = length bs"
    using list_all2_lengthD [OF assms(3)] core_yields_loop [OF assms(2)] by simp
  from landed_own [OF assms(1) len e] show "\<exists>b\<in>set bs. incl b e" .
qed

text \<open>The exchange after the cancellations and the placements of a pass.\<close>

lemma otc_orders_kill:
  "otc_orders (otc_kill k oid g w) =
     filter (\<lambda>order. \<not> (order_id order = oid \<and> owner order = our_address k)) (otc_orders w)"
  by (simp add: otc_kill_def Let_def)

lemma otc_orders_kills:
  "otc_orders (synchronize_kills k txs w) =
     filter (\<lambda>order. \<not> (owner order = our_address k \<and>
                         order_id order \<in> order_id ` set (map fst txs)))
       (otc_orders w)"
proof (induction txs arbitrary: w)
  case Nil
  then show ?case by simp
next
  case (Cons a txs)
  obtain order g where a: "a = (order, g)" by (cases a)
  show ?case
    unfolding a by (simp add: Cons.IH otc_orders_kill) (rule filter_cong, auto)
qed

lemma refund_ge:
  "list_all (\<lambda>order. 0 \<le> sell_how_much order) killed \<Longrightarrow>
   b t \<le> fold (\<lambda>order b. b(sell_which_token order :=
                              b (sell_which_token order) + sell_how_much order)) killed b t"
proof (induction killed arbitrary: b)
  case Nil
  then show ?case by simp
next
  case (Cons a killed)
  from Cons.prems have a: "0 \<le> sell_how_much a"
    and rest: "list_all (\<lambda>order. 0 \<le> sell_how_much order) killed" by simp_all
  have "b t \<le> (b(sell_which_token a := b (sell_which_token a) + sell_how_much a)) t"
    using a by simp
  also have "\<dots> \<le> fold (\<lambda>order b. b(sell_which_token order :=
                              b (sell_which_token order) + sell_how_much order)) killed
                 (b(sell_which_token a := b (sell_which_token a) + sell_how_much a)) t"
    by (rule Cons.IH [OF rest])
  finally show ?case by (simp only: fold_simps comp_apply)
qed

lemma balance_kill_ge:
  assumes "list_all (\<lambda>order. 0 \<le> sell_how_much order) (otc_orders w)"
  shows "balance_of w t \<le> balance_of (otc_kill k oid g w) t"
proof -
  have "list_all (\<lambda>order. 0 \<le> sell_how_much order)
          (filter (\<lambda>order. order_id order = oid \<and> owner order = our_address k) (otc_orders w))"
    using assms by (simp add: list_all_iff)
  from refund_ge [OF this] show ?thesis
    by (simp add: otc_kill_def Let_def)
qed

lemma balance_kills_ge:
  assumes "list_all (\<lambda>order. 0 \<le> sell_how_much order) (otc_orders w)"
  shows "balance_of w t \<le> balance_of (synchronize_kills k txs w) t"
  using assms
proof (induction txs arbitrary: w)
  case Nil
  then show ?case by simp
next
  case (Cons a txs)
  obtain order g where a: "a = (order, g)" by (cases a)
  let ?w1 = "otc_kill k (order_id order) g (emit (Kill (order_id order) g) w)"
  have nn: "list_all (\<lambda>order. 0 \<le> sell_how_much order) (otc_orders ?w1)"
    using Cons.prems by (simp add: otc_orders_kill list_all_iff)
  have "balance_of w t \<le> balance_of ?w1 t"
    using balance_kill_ge [of "emit (Kill (order_id order) g) w" t k "order_id order" g]
      Cons.prems
    by simp
  also have "\<dots> \<le> balance_of (synchronize_kills k txs ?w1) t"
    by (rule Cons.IH [OF nn])
  finally show ?case unfolding a by simp
qed

text \<open>
  What the cancellations leave of the order book and of the balances depends on the
  order book and the balances only.
\<close>

lemma kills_cong:
  assumes "otc_orders w = otc_orders v" "balance_of w = balance_of v"
  shows "otc_orders (synchronize_kills k txs w) = otc_orders (synchronize_kills k txs v) \<and>
         balance_of (synchronize_kills k txs w) = balance_of (synchronize_kills k txs v)"
  using assms
proof (induction txs arbitrary: w v)
  case Nil
  then show ?case by simp
next
  case (Cons a txs)
  obtain order g where a: "a = (order, g)" by (cases a)
  let ?w = "otc_kill k (order_id order) g (emit (Kill (order_id order) g) w)"
  let ?v = "otc_kill k (order_id order) g (emit (Kill (order_id order) g) v)"
  have "otc_orders ?w = otc_orders ?v" "balance_of ?w = balance_of ?v"
    using Cons.prems by (simp_all add: otc_kill_def Let_def)
  from Cons.IH [OF this] show ?case unfolding a by simp
qed

lemma otc_orders_makes:
  "otc_orders (synchronize_makes k txs w) =
     otc_orders w @ made_orders k (last_offer_id w) (map fst txs)"
proof (induction txs arbitrary: w)
  case Nil
  then show ?case by simp
next
  case (Cons a txs)
  obtain t g where a: "a = (t, g)" by (cases a)
  show ?case unfolding a by (simp add: Cons.IH otc_make_def)
qed

lemma balance_makes:
  "balance_of (synchronize_makes k txs w) token =
     balance_of w token -
       sum_list (map have_amount (filter (\<lambda>t. have_token t = token) (map fst txs)))"
proof (induction txs arbitrary: w)
  case Nil
  then show ?case by simp
next
  case (Cons a txs)
  obtain t g where a: "a = (t, g)" by (cases a)
  show ?case unfolding a by (simp add: Cons.IH otc_make_def)
qed

lemma last_offer_id_makes [simp]:
  "last_offer_id (synchronize_makes k txs w) = last_offer_id w + length txs"
proof (induction txs arbitrary: w)
  case Nil
  then show ?case by simp
next
  case (Cons a txs)
  obtain t g where a: "a = (t, g)" by (cases a)
  show ?case unfolding a by (simp add: Cons.IH otc_make_def)
qed

lemma made_orders_append:
  "made_orders k n (us @ ts) = made_orders k n us @ made_orders k (n + length us) ts"
  by (induction us arbitrary: n) simp_all

lemma made_orders_own:
  "filter (\<lambda>order. owner order = our_address k) (made_orders k n ts) = made_orders k n ts"
  by (induction ts arbitrary: n) simp_all

lemma made_orders_sell_side:
  assumes "\<forall>t\<in>set ts. have_token t = gem k \<and> want_token t = sai k"
  shows "list_all2 (made_from (sell_side k)) (map amounts ts) (made_orders k n ts)"
  using assms
  by (induction ts arbitrary: n) (simp_all add: made_from_def sell_side_def amounts_def)

lemma made_orders_buy_side:
  assumes "\<forall>t\<in>set ts. have_token t = sai k \<and> want_token t = gem k"
  shows "list_all2 (made_from (buy_side k)) (map amounts ts) (made_orders k n ts)"
  using assms
  by (induction ts arbitrary: n) (simp_all add: made_from_def buy_side_def amounts_def)

lemma made_sell_orders:
  assumes "\<forall>t\<in>set ts. have_token t = gem k \<and> want_token t = sai k"
  shows "our_sell_orders k (made_orders k n ts) = made_orders k n ts"
    and "sai k \<noteq> gem k \<Longrightarrow> our_buy_orders k (made_orders k n ts) = []"
  using assms
  by (induction ts arbitrary: n) (simp_all add: our_sell_orders_def our_buy_orders_def)

lemma made_buy_orders:
  assumes "\<forall>t\<in>set ts. have_token t = sai k \<and> want_token t = gem k"
  shows "our_buy_orders k (made_orders k n ts) = made_orders k n ts"
    and "sai k \<noteq> gem k \<Longrightarrow> our_sell_orders k (made_orders k n ts) = []"
  using assms
  by (induction ts arbitrary: n) (simp_all add: our_sell_orders_def our_buy_orders_def)

lemma total_amount_filter_le:
  "list_all (\<lambda>order. 0 \<le> sell_how_much order) orders \<Longrightarrow>
   total_amount (filter P orders) \<le> total_amount orders"
  by (induction orders) (auto simp: total_amount_sum)

lemma excessive_after_cancel:
  assumes "list_all (\<lambda>order. 0 \<le> sell_how_much order) orders"
    and "set (excessive_orders includes b orders p) \<subseteq> set killed"
  shows "excessive_orders includes b
           (filter (\<lambda>order. order_id order \<notin> order_id ` set killed) orders) p = []"
proof (cases "total_amount (filter (\<lambda>order. includes b order p) orders) > max_amount b")
  case True
  with assms(2) have "set (filter (\<lambda>order. includes b order p) orders) \<subseteq> set killed"
    by (simp add: excessive_orders_def Let_def)
  then have "filter (\<lambda>order. includes b order p)
               (filter (\<lambda>order. order_id order \<notin> order_id ` set killed) orders) = []"
    by (auto simp: filter_empty_conv)
  then show ?thesis by (simp add: excessive_orders_def Let_def)
next
  case False
  have "filter (\<lambda>order. includes b order p)
          (filter (\<lambda>order. order_id order \<notin> order_id ` set killed) orders) =
        filter (\<lambda>order. order_id order \<notin> order_id ` set killed)
          (filter (\<lambda>order. includes b order p) orders)"
    by (simp add: conj_commute)
  moreover have "total_amount (filter (\<lambda>order. order_id order \<notin> order_id ` set killed)
          (filter (\<lambda>order. includes b order p) orders))
        \<le> total_amount (filter (\<lambda>order. includes b order p) orders)"
    by (rule total_amount_filter_le) (use assms(1) in \<open>simp add: list_all_iff\<close>)
  ultimately show ?thesis using False by (simp add: excessive_orders_def Let_def)
qed

lemma inside_after_cancel:
  assumes "set (outside_any_band_orders includes orders bs p) \<subseteq> set killed"
    and "e \<in> set (filter (\<lambda>order. order_id order \<notin> order_id ` set killed) orders)"
  shows "\<exists>b\<in>set bs. includes b e p"
proof -
  from assms(2) have e: "e \<in> set orders" "e \<notin> set killed" by auto
  with assms(1) have "e \<notin> set (outside_any_band_orders includes orders bs p)" by blast
  with e(1) show ?thesis
    by (simp add: outside_any_band_orders_def list_ex_iff)
qed


text \<open>The orders placed band by band are the orders of the whole top-up.\<close>

lemma sell_placed_0:
  "sell_placed lib k ours p (b # bs) r n 0 =
     made_orders k n (snd (top_up_sell_band lib k ours p b r))"
  by (simp add: sell_placed_def)

lemma sell_placed_Suc:
  "sell_placed lib k ours p (b # bs) r n (Suc i) =
     sell_placed lib k ours p bs (fst (top_up_sell_band lib k ours p b r))
       (n + length (snd (top_up_sell_band lib k ours p b r))) i"
  by (simp add: sell_placed_def add.assoc split: prod.splits)

lemma buy_placed_0:
  "top_up_buy_band lib k ours p b r = Inr (r1, ts) \<Longrightarrow>
   buy_placed lib k ours p (b # bs) r n 0 = made_orders k n ts"
  by (simp add: buy_placed_def)

lemma buy_placed_Suc:
  "top_up_buy_band lib k ours p b r = Inr (r1, ts) \<Longrightarrow>
   buy_placed lib k ours p (b # bs) r n (Suc i) =
     buy_placed lib k ours p bs r1 (n + length ts) i"
  by (simp add: buy_placed_def add.assoc split: prod.splits sum.splits)

lemma map_upt_Cons: "map f [0..<Suc m] = f 0 # map (\<lambda>i. f (Suc i)) [0..<m]"
  by (simp add: map_upt_Suc del: upt_Suc)

lemma sell_placed_yields:
  "list_all2 (list_all2 (made_from (sell_side k)))
     (core_yields (\<lambda>b. total_amount (filter (\<lambda>order. SellBand_includes lib b order p)
                                        (our_sell_orders k ours)))
        (want_sell lib k p) bs r)
     (map (sell_placed lib k ours p bs r n) [0..<length bs]) \<and>
   concat (map (sell_placed lib k ours p bs r n) [0..<length bs]) =
     made_orders k n (snd (top_up_sell_loop lib k ours p bs r))"
proof (induction bs arbitrary: r n)
  case Nil
  then show ?case by simp
next
  case (Cons b bs)
  obtain r1 ts where step: "top_up_sell_band lib k ours p b r = (r1, ts)"
    by (cases "top_up_sell_band lib k ours p b r")
  obtain rf rest where loop: "top_up_sell_loop lib k ours p bs r1 = (rf, rest)"
    by (cases "top_up_sell_loop lib k ours p bs r1")
  have made: "list_all2 (made_from (sell_side k)) (map amounts ts) (made_orders k n ts)"
    by (rule made_orders_sell_side [OF sell_band_tokens [OF step]])
  have maps: "map (sell_placed lib k ours p (b # bs) r n) [0..<length (b # bs)] =
      made_orders k n ts # map (sell_placed lib k ours p bs r1 (n + length ts)) [0..<length bs]"
    unfolding length_Cons map_upt_Cons by (simp add: sell_placed_0 sell_placed_Suc step)
  from Cons.IH [of r1 "n + length ts"] made show ?case
    unfolding maps by (simp add: core_band_sell step loop made_orders_append)
qed

lemma buy_placed_yields:
  assumes "top_up_buy_loop lib k ours p bs r = Inr (rf, buys)"
  shows "list_all2 (list_all2 (made_from (buy_side k)))
     (core_yields (\<lambda>b. total_amount (filter (\<lambda>order. BuyBand_includes lib b order p)
                                        (our_buy_orders k ours)))
        (want_buy lib k p) bs r)
     (map (buy_placed lib k ours p bs r n) [0..<length bs]) \<and>
   concat (map (buy_placed lib k ours p bs r n) [0..<length bs]) = made_orders k n buys"
  using assms
proof (induction bs arbitrary: r n buys)
  case Nil
  then show ?case by simp
next
  case (Cons b bs)
  from Cons.prems obtain r1 ts where
    step: "top_up_buy_band lib k ours p b r = Inr (r1, ts)"
    by (auto split: sum.splits prod.splits)
  with Cons.prems obtain rest where
    loop: "top_up_buy_loop lib k ours p bs r1 = Inr (rf, rest)" and buys: "buys = ts @ rest"
    by (auto split: sum.splits prod.splits)
  have made: "list_all2 (made_from (buy_side k)) (map amounts ts) (made_orders k n ts)"
    by (rule made_orders_buy_side [OF buy_band_tokens [OF step]])
  have maps: "map (buy_placed lib k ours p (b # bs) r n) [0..<length (b # bs)] =
      made_orders k n ts # map (buy_placed lib k ours p bs r1 (n + length ts)) [0..<length bs]"
    unfolding length_Cons map_upt_Cons
    by (simp add: buy_placed_0 [OF step] buy_placed_Suc [OF step])
  from Cons.IH [OF loop, of "n + length ts"] made show ?case
    unfolding maps buys by (simp add: core_band_buy step made_orders_append)
qed

lemma landed_map:
  "landed incl bs placed \<Longrightarrow> landed incl bs ((!) (map placed [0..<length bs]))"
  by (simp add: landed_def)

lemma second_pass_side:
  fixes inc :: "'m band \<Rightarrow> order \<Rightarrow> wad \<Rightarrow> bool"
  assumes lands: "landed (\<lambda>b e. inc b e p) bs ((!) Es)"
    and inv: "list_all (\<lambda>b. min_amount b \<le> avg_amount b \<and> avg_amount b \<le> max_amount b) bs"
    and r: "0 \<le> r"
    and nonneg: "list_all (\<lambda>order. 0 \<le> sell_how_much order) orders"
    and no_excess: "\<forall>b\<in>set bs. excessive_orders inc b orders p = []"
    and inside: "\<forall>e\<in>set orders. \<exists>b\<in>set bs. inc b e p"
    and loop: "core_loop (\<lambda>b. total_amount (filter (\<lambda>e. inc b e p) orders)) want bs r
                 = Some (rf, ys)"
    and made: "list_all2 (list_all2 (made_from side))
                 (core_yields (\<lambda>b. total_amount (filter (\<lambda>e. inc b e p) orders)) want bs r) Es"
  shows "concat (map (\<lambda>b. excessive_orders inc b (orders @ concat Es) p) bs) = []"
    and "outside_any_band_orders inc (orders @ concat Es) bs p = []"
    and "core_loop (\<lambda>b. total_amount (filter (\<lambda>e. inc b e p) (orders @ concat Es))) want bs
           (r - sum_list (map fst ys)) = Some (rf, [])"
proof -
  define E where "E = concat Es"
  have "excessive_orders inc b (orders @ E) p = []" if b: "b \<in> set bs" for b
  proof -
    from core_no_excess [OF lands loop made] b
    consider "filter (\<lambda>e. inc b e p) E = []"
      | "total_amount (filter (\<lambda>e. inc b e p) orders) +
           total_amount (filter (\<lambda>e. inc b e p) E) \<le> avg_amount b"
      unfolding E_def by blast
    then show ?thesis
    proof cases
      case 1
      from no_excess b have "excessive_orders inc b orders p = []" by blast
      with 1 show ?thesis by (simp add: excessive_orders_def Let_def)
    next
      case 2
      from inv b have "avg_amount b \<le> max_amount b" by (simp add: list_all_iff)
      with 2 show ?thesis
        by (simp add: excessive_orders_def Let_def total_amount_append)
    qed
  qed
  then show "concat (map (\<lambda>b. excessive_orders inc b (orders @ concat Es) p) bs) = []"
    unfolding E_def by simp
  from core_new_in_band [OF lands loop made] inside
  have "\<forall>e\<in>set (orders @ E). \<exists>b\<in>set bs. inc b e p" unfolding E_def by auto
  then show "outside_any_band_orders inc (orders @ concat Es) bs p = []"
    unfolding E_def [symmetric]
    by (simp add: outside_any_band_orders_def list_ex_iff filter_empty_conv)
  from inv have inv': "list_all (\<lambda>b. min_amount b \<le> avg_amount b) bs"
    by (simp add: list_all_iff)
  from core_second_pass [OF lands inv' r nonneg loop made, of "[]"]
  show "core_loop (\<lambda>b. total_amount (filter (\<lambda>e. inc b e p) (orders @ concat Es))) want bs
           (r - sum_list (map fst ys)) = Some (rf, [])"
    by simp
qed

lemma our_buy_orders_append:
  "our_buy_orders k (xs @ ys) = our_buy_orders k xs @ our_buy_orders k ys"
  by (simp add: our_buy_orders_def)

lemma our_sell_orders_append:
  "our_sell_orders k (xs @ ys) = our_sell_orders k xs @ our_sell_orders k ys"
  by (simp add: our_sell_orders_def)

lemma sum_amounts: "sum_list (map (fst \<circ> amounts) ts) = sum_list (map have_amount ts)"
  by (induction ts) (simp_all add: amounts_def)

lemma own_after_kills:
  "filter (\<lambda>order. owner order = our_address k) (otc_orders (synchronize_kills k txs w)) =
     filter (\<lambda>order. order_id order \<notin> order_id ` set (map fst txs))
       (filter (\<lambda>order. owner order = our_address k) (otc_orders w))"
  by (simp add: otc_orders_kills) (rule filter_cong, auto)

lemma cancel_orders_with:
  assumes "cancel_orders k K w = Inr w'"
  obtains txs where "with_gas_price (gas_price_for_order_cancellation k) K = Inr txs"
    "map fst txs = K" "w' = synchronize_kills k txs w"
  using assms
  by (auto simp: cancel_orders_def split: sum.splits dest: with_gas_price_items)

lemma own_after_cancel_all:
  assumes "cancel_all_orders k w = Inr w'"
  shows "filter (\<lambda>order. owner order = our_address k) (otc_orders w') = []"
proof -
  from assms have "cancel_orders k (filter (\<lambda>order. owner order = our_address k) (otc_orders w))
                     (emit Get_orders w) = Inr w'"
    by (simp add: cancel_all_orders_eq)
  then obtain txs where
    txs: "map fst txs = filter (\<lambda>order. owner order = our_address k) (otc_orders w)"
    and w': "w' = synchronize_kills k txs (emit Get_orders w)"
    by (rule cancel_orders_with)
  show ?thesis
    unfolding w' own_after_kills txs by (auto simp: filter_empty_conv)
qed

lemma second_pass_main:
  fixes w :: "('m::linorder) world"
  assumes eth: "\<not> eth_balance w < min_eth_balance k"
    and nov: "\<not> (bands_overlap (fst (bands_config w)) \<or> bands_overlap (snd (bands_config w)))"
    and price: "price_feed w = Some p"
    and first: "synchronize_orders lib k w = Inr w1"
    and ne: "sai k \<noteq> gem k"
    and nonneg: "list_all (\<lambda>order. 0 \<le> sell_how_much order) (otc_orders w)"
    and bal: "0 \<le> balance_of w (sai k)" "0 \<le> balance_of w (gem k)"
    and inv: "list_all (\<lambda>b. min_amount b \<le> avg_amount b \<and> avg_amount b \<le> max_amount b)
                (fst (bands_config w) @ snd (bands_config w))"
    and eth2: "\<not> eth_balance w1 < min_eth_balance k"
    and land: "placed_orders_land lib k w"
  shows "\<exists>w2. synchronize_orders lib k w1 = Inr w2 \<and>
           trace w2 = trace w1 @ [Eth_balance, Get_config, Get_orders, Get_price, Get_orders,
                                  Balance_of (sai k), Balance_of (gem k)]"
proof -
  define bb where "bb = fst (bands_config w)"
  define sb where "sb = snd (bands_config w)"
  define ours where "ours = filter (\<lambda>order. owner order = our_address k) (otc_orders w)"
  define K where "K = excessive_buy_orders lib k ours bb p @
                      excessive_sell_orders lib k ours sb p @
                      outside_orders lib k ours bb sb p"
  define w3 where "w3 = emit Get_price (emit Get_orders (emit Get_config (emit Eth_balance w)))"
  from sync_main [OF eth nov price, of lib] first
  have s1: "(case cancel_orders k K w3 of
               Inl e \<Rightarrow> Inl e
             | Inr w4 \<Rightarrow>
                 top_up_bands lib k
                   (filter (\<lambda>order. owner order = our_address k) (otc_orders w4))
                   bb sb p (emit Get_orders w4)) = Inr w1"
    unfolding bb_def sb_def ours_def K_def w3_def by simp
  then obtain w4 where c4: "cancel_orders k K w3 = Inr w4"
    and t4: "top_up_bands lib k (filter (\<lambda>order. owner order = our_address k) (otc_orders w4))
               bb sb p (emit Get_orders w4) = Inr w1"
    by (cases "cancel_orders k K w3") simp_all
  from c4 obtain txs where
    wg: "with_gas_price (gas_price_for_order_cancellation k) K = Inr txs"
    and txs: "map fst txs = K" and w4: "w4 = synchronize_kills k txs w3"
    by (rule cancel_orders_with)
  define ours' where "ours' = filter (\<lambda>order. owner order = our_address k) (otc_orders w4)"
  define Bs where "Bs = balance_of w4 (sai k)"
  define Bg where "Bg = balance_of w4 (gem k)"
  define n where "n = last_offer_id w4"
  obtain rs sells where sell1: "top_up_sell_loop lib k ours' p sb Bg = (rs, sells)"
    by (cases "top_up_sell_loop lib k ours' p sb Bg")
  have tb: "top_up_bands lib k ours' bb sb p (emit Get_orders w4) =
     (case top_up_buy_loop lib k ours' p bb Bs of
        Inl (e, yielded) \<Rightarrow>
          (case with_gas_price (gas_price_for_order_placement k) yielded of
             Inl e' \<Rightarrow> Inl e'
           | Inr txs \<Rightarrow> Inl e)
      | Inr (rb, buys) \<Rightarrow>
          (case with_gas_price (gas_price_for_order_placement k) (buys @ sells) of
             Inl e \<Rightarrow> Inl e
           | Inr txs \<Rightarrow>
               Inr (synchronize_makes k txs
                      (emit (Balance_of (gem k)) (emit (Balance_of (sai k))
                         (emit Get_orders w4))))))"
  proof -
    have sells_eq: "snd (top_up_sell_loop lib k ours' p sb
                      (balance_of (emit Get_orders w4) (gem k))) = sells"
      by (simp add: Bg_def [symmetric] sell1)
    have bs_eq: "balance_of (emit Get_orders w4) (sai k) = Bs"
      by (simp add: Bs_def)
    show ?thesis unfolding top_up_bands_eq sells_eq bs_eq ..
  qed
  from t4 have t4': "top_up_bands lib k ours' bb sb p (emit Get_orders w4) = Inr w1"
    by (simp add: ours'_def)
  obtain rb buys mtxs where
    buy1: "top_up_buy_loop lib k ours' p bb Bs = Inr (rb, buys)" and
    mtxs: "map fst mtxs = buys @ sells" and
    w1: "w1 = synchronize_makes k mtxs
                (emit (Balance_of (gem k)) (emit (Balance_of (sai k)) (emit Get_orders w4)))"
  proof (cases "top_up_buy_loop lib k ours' p bb Bs")
    case (Inl e)
    with t4' tb show thesis by (simp split: prod.splits sum.splits)
  next
    case (Inr r)
    obtain rb buys where r: "r = (rb, buys)" by (cases r)
    show thesis
    proof (cases "with_gas_price (gas_price_for_order_placement k) (buys @ sells)")
      case gas: (Inl e)
      with t4' tb Inr r show thesis by simp
    next
      case gas: (Inr mtxs)
      from t4' tb Inr r gas
      have "w1 = synchronize_makes k mtxs
                (emit (Balance_of (gem k)) (emit (Balance_of (sai k)) (emit Get_orders w4)))"
        by simp
      with Inr r with_gas_price_items [OF gas] that show thesis by blast
    qed
  qed

  \<comment> \<open>The orders and balances the top-up of the first pass starts from.\<close>
  have ours'_eq: "ours' = filter (\<lambda>order. order_id order \<notin> order_id ` set K) ours"
    unfolding ours'_def w4 ours_def w3_def own_after_kills txs by simp
  have nn_ours: "list_all (\<lambda>order. 0 \<le> sell_how_much order) ours"
    using nonneg by (simp add: ours_def list_all_iff)
  have nn_ours': "list_all (\<lambda>order. 0 \<le> sell_how_much order) ours'"
    using nn_ours by (simp add: ours'_eq list_all_iff)
  have nn3: "list_all (\<lambda>order. 0 \<le> sell_how_much order) (otc_orders w3)"
    using nonneg by (simp add: w3_def)
  have Bs0: "0 \<le> Bs"
  proof -
    have "balance_of w3 (sai k) \<le> Bs"
      unfolding Bs_def w4 by (rule balance_kills_ge [OF nn3])
    with bal(1) show ?thesis by (simp add: w3_def)
  qed
  have Bg0: "0 \<le> Bg"
  proof -
    have "balance_of w3 (gem k) \<le> Bg"
      unfolding Bg_def w4 by (rule balance_kills_ge [OF nn3])
    with bal(2) show ?thesis by (simp add: w3_def)
  qed

  \<comment> \<open>The orders that the first pass places land.\<close>
  have landed_both:
    "landed (\<lambda>band order. BuyBand_includes lib band order p) bb
       (buy_placed lib k ours' p bb Bs n) \<and>
     landed (\<lambda>band order. SellBand_includes lib band order p) sb
       (sell_placed lib k ours' p sb Bg (n + length buys))"
  proof -
    define v4 where "v4 = synchronize_kills k txs w"
    have c: "cancel_orders k K w = Inr v4"
      by (simp add: cancel_orders_def wg v4_def)
    have "otc_orders w3 = otc_orders w" "balance_of w3 = balance_of w"
      by (simp_all add: w3_def)
    from kills_cong [OF this, of k txs]
    have same: "otc_orders v4 = otc_orders w4" "balance_of v4 = balance_of w4"
      by (simp_all add: v4_def w4)
    have n4: "last_offer_id v4 = n" by (simp add: v4_def n_def w4 w3_def)
    have bc: "fst (band_configuration w) = (bb, sb)"
      using nov by (simp add: band_configuration_fst bb_def sb_def)
    have o4: "fst (our_orders k v4) = ours'"
      by (simp add: our_orders_def same ours'_def)
    have b4: "balance_of v4 (sai k) = Bs" "balance_of v4 (gem k) = Bg"
      by (simp_all add: same Bs_def Bg_def)
    have o: "fst (our_orders k w) = ours" by (simp add: our_orders_def ours_def)
    from land show ?thesis
      unfolding placed_orders_land_def Let_def bc o fst_conv snd_conv
      by (simp add: eth price c [unfolded K_def] o4 b4 n4 buy1)
  qed
  then have lb: "landed (\<lambda>band order. BuyBand_includes lib band order p) bb
                   ((!) (map (buy_placed lib k ours' p bb Bs n) [0..<length bb]))"
    and ls: "landed (\<lambda>band order. SellBand_includes lib band order p) sb
               ((!) (map (sell_placed lib k ours' p sb Bg (n + length buys)) [0..<length sb]))"
    by (simp_all add: landed_map)

  \<comment> \<open>The world after the first pass.\<close>
  have buy_tok: "\<forall>t\<in>set buys. have_token t = sai k \<and> want_token t = gem k"
    by (rule buy_loop_tokens [OF buy1])
  have sell_tok: "\<forall>t\<in>set sells. have_token t = gem k \<and> want_token t = sai k"
    by (rule sell_loop_tokens [OF sell1])
  define Eb where "Eb = made_orders k n buys"
  define Es where "Es = made_orders k (n + length buys) sells"
  have orders1: "otc_orders w1 = otc_orders w4 @ Eb @ Es"
    unfolding w1 Eb_def Es_def n_def
    by (simp add: otc_orders_makes mtxs made_orders_append)
  have ours2: "filter (\<lambda>order. owner order = our_address k) (otc_orders w1) = ours' @ Eb @ Es"
    unfolding orders1 Eb_def Es_def ours'_def by (simp add: made_orders_own)
  have buy2: "our_buy_orders k (ours' @ Eb @ Es) = our_buy_orders k ours' @ Eb"
    unfolding Eb_def Es_def
    using made_buy_orders(1) [OF buy_tok] made_sell_orders(2) [OF sell_tok ne]
    by (simp add: our_buy_orders_append)
  have sell2: "our_sell_orders k (ours' @ Eb @ Es) = our_sell_orders k ours' @ Es"
    unfolding Eb_def Es_def
    using made_sell_orders(1) [OF sell_tok] made_buy_orders(2) [OF buy_tok ne]
    by (simp add: our_sell_orders_append)
  have bal_sai: "balance_of w1 (sai k) = Bs - sum_list (map have_amount buys)"
  proof -
    have "filter (\<lambda>t. have_token t = sai k) buys = buys"
      using buy_tok by (simp add: filter_id_conv)
    moreover have "filter (\<lambda>t. have_token t = sai k) sells = []"
      using sell_tok ne by (auto simp: filter_empty_conv)
    ultimately show ?thesis
      unfolding w1 Bs_def by (simp add: balance_makes mtxs)
  qed
  have bal_gem: "balance_of w1 (gem k) = Bg - sum_list (map have_amount sells)"
  proof -
    have "filter (\<lambda>t. have_token t = gem k) sells = sells"
      using sell_tok by (simp add: filter_id_conv)
    moreover have "filter (\<lambda>t. have_token t = gem k) buys = []"
      using buy_tok ne by (auto simp: filter_empty_conv)
    ultimately show ?thesis
      unfolding w1 Bg_def by (simp add: balance_makes mtxs)
  qed
  have same: "bands_config w1 = bands_config w" "price_feed w1 = price_feed w"
    unfolding w1 w4 w3_def by simp_all

  \<comment> \<open>The two sides of the second pass.\<close>
  have inv_b: "list_all (\<lambda>b. min_amount b \<le> avg_amount b \<and> avg_amount b \<le> max_amount b) bb"
    and inv_s: "list_all (\<lambda>b. min_amount b \<le> avg_amount b \<and> avg_amount b \<le> max_amount b) sb"
    using inv by (simp_all add: bb_def sb_def)
  have buy_orders': "our_buy_orders k ours' =
      filter (\<lambda>order. order_id order \<notin> order_id ` set K) (our_buy_orders k ours)"
    unfolding ours'_eq our_buy_orders_def by (simp add: conj_commute)
  have sell_orders': "our_sell_orders k ours' =
      filter (\<lambda>order. order_id order \<notin> order_id ` set K) (our_sell_orders k ours)"
    unfolding ours'_eq our_sell_orders_def by (simp add: conj_commute)
  have nn_buy: "list_all (\<lambda>order. 0 \<le> sell_how_much order) (our_buy_orders k ours)"
    and nn_sell: "list_all (\<lambda>order. 0 \<le> sell_how_much order) (our_sell_orders k ours)"
    using nn_ours by (simp_all add: our_buy_orders_def our_sell_orders_def list_all_iff)
  have nn_buy': "list_all (\<lambda>order. 0 \<le> sell_how_much order) (our_buy_orders k ours')"
    and nn_sell': "list_all (\<lambda>order. 0 \<le> sell_how_much order) (our_sell_orders k ours')"
    using nn_ours' by (simp_all add: our_buy_orders_def our_sell_orders_def list_all_iff)
  have ex_b: "\<forall>b\<in>set bb. excessive_orders (BuyBand_includes lib) b (our_buy_orders k ours') p = []"
  proof
    fix b assume "b \<in> set bb"
    then have "set (excessive_orders (BuyBand_includes lib) b (our_buy_orders k ours) p) \<subseteq> set K"
      by (auto simp: K_def excessive_buy_orders_def)
    from excessive_after_cancel [OF nn_buy this]
    show "excessive_orders (BuyBand_includes lib) b (our_buy_orders k ours') p = []"
      by (simp add: buy_orders')
  qed
  have ex_s: "\<forall>b\<in>set sb. excessive_orders (SellBand_includes lib) b (our_sell_orders k ours') p = []"
  proof
    fix b assume "b \<in> set sb"
    then have "set (excessive_orders (SellBand_includes lib) b (our_sell_orders k ours) p) \<subseteq> set K"
      by (auto simp: K_def excessive_sell_orders_def)
    from excessive_after_cancel [OF nn_sell this]
    show "excessive_orders (SellBand_includes lib) b (our_sell_orders k ours') p = []"
      by (simp add: sell_orders')
  qed
  have in_b: "\<forall>e\<in>set (our_buy_orders k ours'). \<exists>b\<in>set bb. BuyBand_includes lib b e p"
  proof
    fix e assume e: "e \<in> set (our_buy_orders k ours')"
    have "set (outside_any_band_orders (BuyBand_includes lib) (our_buy_orders k ours) bb p)
            \<subseteq> set K"
      by (auto simp: K_def outside_orders_def)
    from inside_after_cancel [OF this] e show "\<exists>b\<in>set bb. BuyBand_includes lib b e p"
      by (simp add: buy_orders')
  qed
  have in_s: "\<forall>e\<in>set (our_sell_orders k ours'). \<exists>b\<in>set sb. SellBand_includes lib b e p"
  proof
    fix e assume e: "e \<in> set (our_sell_orders k ours')"
    have "set (outside_any_band_orders (SellBand_includes lib) (our_sell_orders k ours) sb p)
            \<subseteq> set K"
      by (auto simp: K_def outside_orders_def)
    from inside_after_cancel [OF this] e show "\<exists>b\<in>set sb. SellBand_includes lib b e p"
      by (simp add: sell_orders')
  qed
  have loop_b: "core_loop (\<lambda>b. total_amount (filter (\<lambda>e. BuyBand_includes lib b e p)
                                     (our_buy_orders k ours')))
                  (want_buy lib k p) bb Bs = Some (rb, map amounts buys)"
    by (simp add: core_loop_buy buy1)
  have loop_s: "core_loop (\<lambda>b. total_amount (filter (\<lambda>e. SellBand_includes lib b e p)
                                     (our_sell_orders k ours')))
                  (want_sell lib k p) sb Bg = Some (rs, map amounts sells)"
    by (simp add: core_loop_sell sell1)
  note yb = buy_placed_yields [OF buy1, of n]
  note ys = sell_placed_yields [of k lib p ours' sb Bg "n + length buys"]
  have cb: "concat (map (buy_placed lib k ours' p bb Bs n) [0..<length bb]) = Eb"
    using yb by (simp add: Eb_def)
  have cs: "concat (map (sell_placed lib k ours' p sb Bg (n + length buys)) [0..<length sb]) = Es"
    using ys by (simp add: Es_def sell1)
  note side_b = second_pass_side [OF lb inv_b Bs0 nn_buy' ex_b in_b loop_b conjunct1 [OF yb],
      unfolded cb]
  note side_s = second_pass_side [OF ls inv_s Bg0 nn_sell' ex_s in_s loop_s conjunct1 [OF ys],
      unfolded cs]

  \<comment> \<open>The second pass.\<close>
  define ours2 where "ours2 = ours' @ Eb @ Es"
  have K2: "excessive_buy_orders lib k ours2 bb p @ excessive_sell_orders lib k ours2 sb p @
            outside_orders lib k ours2 bb sb p = []"
    using side_b(1,2) side_s(1,2)
    by (simp add: excessive_buy_orders_def excessive_sell_orders_def outside_orders_def
        ours2_def buy2 sell2)
  have buy_loop2: "top_up_buy_loop lib k ours2 p bb (balance_of w1 (sai k)) = Inr (rb, [])"
  proof -
    have "core_loop (\<lambda>b. total_amount (filter (\<lambda>e. BuyBand_includes lib b e p)
                             (our_buy_orders k ours2)))
            (want_buy lib k p) bb (balance_of w1 (sai k)) = Some (rb, [])"
      using side_b(3) by (simp add: ours2_def buy2 bal_sai sum_amounts)
    then show ?thesis
      by (simp add: core_loop_buy split: sum.splits prod.splits)
  qed
  have sell_loop2: "top_up_sell_loop lib k ours2 p sb (balance_of w1 (gem k)) = (rs, [])"
  proof -
    have "core_loop (\<lambda>b. total_amount (filter (\<lambda>e. SellBand_includes lib b e p)
                             (our_sell_orders k ours2)))
            (want_sell lib k p) sb (balance_of w1 (gem k)) = Some (rs, [])"
      using side_s(3) by (simp add: ours2_def sell2 bal_gem sum_amounts)
    then show ?thesis
      by (simp add: core_loop_sell split: prod.splits)
  qed
  have nov2: "\<not> (bands_overlap (fst (bands_config w1)) \<or> bands_overlap (snd (bands_config w1)))"
    using nov same by simp
  have price2: "price_feed w1 = Some p" using price same by simp
  have "synchronize_orders lib k w1 =
          Inr (emit (Balance_of (gem k)) (emit (Balance_of (sai k)) (emit Get_orders
                (emit Get_price (emit Get_orders (emit Get_config (emit Eth_balance w1)))))))"
    unfolding sync_main [OF eth2 nov2 price2, of lib]
    using K2 buy_loop2 sell_loop2
    by (simp add: same ours2 bb_def [symmetric] sb_def [symmetric] ours2_def [symmetric]
        top_up_bands_eq)
  then show ?thesis by simp
qed

lemma cancel_all_orders_fields:
  assumes "cancel_all_orders k w = Inr w'"
  shows "price_feed w' = price_feed w" "bands_config w' = bands_config w"
proof -
  from assms have "cancel_orders k (filter (\<lambda>order. owner order = our_address k) (otc_orders w))
                     (emit Get_orders w) = Inr w'"
    by (simp add: cancel_all_orders_eq)
  then obtain txs where w': "w' = synchronize_kills k txs (emit Get_orders w)"
    by (rule cancel_orders_with)
  show "price_feed w' = price_feed w" "bands_config w' = bands_config w"
    unfolding w' by simp_all
qed

lemma cancel_all_orders_none:
  assumes "filter (\<lambda>order. owner order = our_address k) (otc_orders w) = []"
  shows "cancel_all_orders k w = Inr (emit Get_orders w)"
  by (simp add: cancel_all_orders_eq assms)

text \<open>
  C1, amended. Let SAI and W-ETH be different tokens, no order of the book have a
  negative amount, the keeper's two balances be non-negative, every configured band have
  \<open>min_amount \<le> avg_amount \<le> max_amount\<close>, the ETH guard give the same answer after
  the first pass as before it (the fees of the first pass do not take the ETH balance
  below the minimum), and the orders that the first pass places land: each is included,
  at the price of the pass, in the band it was placed for and in no other band of its
  side. Then a second pass over the world that a completed first pass left completes,
  cancels nothing and places nothing.
\<close>

theorem second_pass_is_empty:
  fixes w :: "('m::linorder) world"
  assumes first: "synchronize_orders lib k w = Inr w1"
    and ne: "sai k \<noteq> gem k"
    and nonneg: "list_all (\<lambda>order. 0 \<le> sell_how_much order) (otc_orders w)"
    and bal: "0 \<le> balance_of w (sai k)" "0 \<le> balance_of w (gem k)"
    and inv: "list_all (\<lambda>b. min_amount b \<le> avg_amount b \<and> avg_amount b \<le> max_amount b)
                (fst (bands_config w) @ snd (bands_config w))"
    and eth_same: "(eth_balance w1 < min_eth_balance k) = (eth_balance w < min_eth_balance k)"
    and land: "placed_orders_land lib k w"
  shows "\<exists>w2. synchronize_orders lib k w1 = Inr w2 \<and>
           cancel_intents (emitted w1 w2) = [] \<and> place_intents (emitted w1 w2) = []"
proof (cases "eth_balance w < min_eth_balance k")
  case True
  from first sync_eth_low [OF True, of lib]
  have c: "cancel_all_orders k
            (terminate ''Keeper balance is below the minimum, terminating.''
               (emit Eth_balance w)) = Inr w1" by simp
  have own1: "filter (\<lambda>order. owner order = our_address k) (otc_orders w1) = []"
    by (rule own_after_cancel_all [OF c])
  from True eth_same have "eth_balance w1 < min_eth_balance k" by simp
  from sync_eth_low [OF this, of lib]
  have "synchronize_orders lib k w1 =
     cancel_all_orders k
       (terminate ''Keeper balance is below the minimum, terminating.''
          (emit Eth_balance w1))" .
  also have "\<dots> = Inr (emit Get_orders
       (terminate ''Keeper balance is below the minimum, terminating.''
          (emit Eth_balance w1)))"
    by (rule cancel_all_orders_none) (simp add: terminate_def own1)
  finally show ?thesis
    by (simp add: emitted_def terminate_def)
next
  case eth: False
  with eth_same have eth1: "\<not> eth_balance w1 < min_eth_balance k" by simp
  show ?thesis
  proof (cases "price_feed w")
    case None
    from first sync_no_price_eq [OF None eth, of lib]
    have c: "cancel_all_orders k
            (emit (Warning ''Cancelling all orders as no price feed available.'')
               (emit Get_price (emit Get_orders
                  (snd (band_configuration (emit Eth_balance w)))))) = Inr w1" by simp
    have p1: "price_feed w1 = None"
      using cancel_all_orders_fields(1) [OF c] None by simp
    have own1: "filter (\<lambda>order. owner order = our_address k) (otc_orders w1) = []"
      by (rule own_after_cancel_all [OF c])
    have "synchronize_orders lib k w1 =
       Inr (emit Get_orders
          (emit (Warning ''Cancelling all orders as no price feed available.'')
             (emit Get_price (emit Get_orders
                (snd (band_configuration (emit Eth_balance w1)))))))"
      unfolding sync_no_price_eq [OF p1 eth1]
      by (rule cancel_all_orders_none) (simp add: own1)
    then show ?thesis
      by (simp add: emitted_def trace_band_configuration)
  next
    case (Some p)
    show ?thesis
    proof (cases "bands_overlap (fst (bands_config w)) \<or> bands_overlap (snd (bands_config w))")
      case True
      define K where "K =
          our_buy_orders k (filter (\<lambda>order. owner order = our_address k) (otc_orders w)) @
          our_sell_orders k (filter (\<lambda>order. owner order = our_address k) (otc_orders w))"
      define w3 where "w3 = emit Get_price (emit Get_orders
                  (snd (band_configuration (emit Eth_balance w))))"
      from first sync_overlap_price_eq [OF eth True Some, of lib]
      have "(case cancel_orders k K w3 of
               Inl e \<Rightarrow> Inl e
             | Inr w4 \<Rightarrow>
                 Inr (emit (Balance_of (gem k)) (emit (Balance_of (sai k))
                        (emit Get_orders w4)))) = Inr w1"
        by (simp add: K_def w3_def)
      then obtain w4 where c4: "cancel_orders k K w3 = Inr w4"
        and w1: "w1 = emit (Balance_of (gem k)) (emit (Balance_of (sai k)) (emit Get_orders w4))"
        by (cases "cancel_orders k K w3") auto
      from c4 obtain txs where txs: "map fst txs = K" and w4: "w4 = synchronize_kills k txs w3"
        by (rule cancel_orders_with)
      have same: "bands_overlap (fst (bands_config w1)) \<or> bands_overlap (snd (bands_config w1))"
        "price_feed w1 = Some p"
        unfolding w1 w4 w3_def using True Some by simp_all
      have own1: "filter (\<lambda>order. owner order = our_address k) (otc_orders w1) =
          filter (\<lambda>order. order_id order \<notin> order_id ` set K)
            (filter (\<lambda>order. owner order = our_address k) (otc_orders w))"
        unfolding w1 w4 w3_def by (simp add: own_after_kills txs)
      have b1: "our_buy_orders k (filter (\<lambda>order. owner order = our_address k) (otc_orders w1)) = []"
        unfolding own1 by (auto simp: K_def our_buy_orders_def filter_empty_conv)
      have s1: "our_sell_orders k (filter (\<lambda>order. owner order = our_address k) (otc_orders w1)) = []"
        unfolding own1 by (auto simp: K_def our_sell_orders_def filter_empty_conv)
      have "synchronize_orders lib k w1 =
         Inr (emit (Balance_of (gem k)) (emit (Balance_of (sai k)) (emit Get_orders
                (emit Get_price (emit Get_orders
                   (snd (band_configuration (emit Eth_balance w1))))))))"
        unfolding sync_overlap_price_eq [OF eth1 same, of lib] b1 s1 by simp
      then show ?thesis
        by (simp add: emitted_def trace_band_configuration)
    next
      case False
      from second_pass_main [OF eth False Some first ne nonneg bal inv eth1 land]
      show ?thesis by (auto simp: emitted_def)
    qed
  qed
qed

lemma narrow_no_overlap: "\<not> bands_overlap [narrow_band]" "\<not> bands_overlap ([] :: rat band list)"
  by (simp_all add: bands_overlap_def two_bands_overlap_def narrow_band_def)

lemma ex_keeper_gas_Nil [simp]:
  "with_gas_price (gas_price_for_order_cancellation ex_keeper) xs =
     Inr (map (\<lambda>x. (x, DefaultGasPrice)) xs)"
  "with_gas_price (gas_price_for_order_placement ex_keeper) ys =
     Inr (map (\<lambda>x. (x, DefaultGasPrice)) ys)"
  by (simp_all add: with_gas_price_eq ex_keeper_gas)

lemma ex_keeper_fields [simp]:
  "sai ex_keeper = 10" "gem ex_keeper = 20" "round_places ex_keeper = 2"
  by (simp_all add: ex_keeper_def)

lemma cx_first: "synchronize_orders spec_lib ex_keeper cx_world = Inr cx_world1"
proof -
  have e: "\<not> eth_balance cx_world < min_eth_balance ex_keeper"
    by (simp add: cx_world_def)
  have o: "\<not> (bands_overlap (fst (bands_config cx_world)) \<or>
              bands_overlap (snd (bands_config cx_world)))"
    by (simp add: cx_world_def narrow_no_overlap)
  have p: "price_feed cx_world = Some ex_price" by (simp add: cx_world_def)
  show ?thesis
    unfolding sync_main [OF e o p]
    by (simp add: cx_world_def cx_world1_def cx_order_def cx_make_def top_up_bands_eq
        excessive_buy_orders_def excessive_sell_orders_def outside_orders_def
        outside_any_band_orders_def excessive_orders_def our_buy_orders_def our_sell_orders_def
        total_amount_def top_up_sell_band_def Let_def ex_price_def
        narrow_band_def emit_def otc_make_def cancel_orders_def ex_keeper_gas)
qed

lemma cx_second: "synchronize_orders spec_lib ex_keeper cx_world1 = Inr cx_world2"
proof -
  have e: "\<not> eth_balance cx_world1 < min_eth_balance ex_keeper"
    by (simp add: cx_world1_def)
  have o: "\<not> (bands_overlap (fst (bands_config cx_world1)) \<or>
              bands_overlap (snd (bands_config cx_world1)))"
    by (simp add: cx_world1_def narrow_no_overlap)
  have p: "price_feed cx_world1 = Some ex_price" by (simp add: cx_world1_def)
  show ?thesis
    unfolding sync_main [OF e o p]
    by (simp add: cx_world1_def cx_world2_def cx_order_def cx_make_def top_up_bands_eq
        excessive_buy_orders_def excessive_sell_orders_def outside_orders_def
        outside_any_band_orders_def excessive_orders_def our_buy_orders_def our_sell_orders_def
        total_amount_def top_up_sell_band_def Let_def ex_price_def
        narrow_band_def emit_def otc_make_def cancel_orders_def otc_kill_def
        wad_value_def sell_order_price_def ex_keeper_gas)
qed

text \<open>
  C1, as stated, fails. The only sell band spans the margins 0.001 to 0.003; at the price 1
  the average price 1.002 is rounded to two places, so the first pass places an order at
  the price 1.00, outside the band. The second pass cancels that order and places it
  again.
\<close>

theorem second_pass_counterexample:
  "synchronize_orders spec_lib ex_keeper cx_world = Inr cx_world1 \<and>
   synchronize_orders spec_lib ex_keeper cx_world1 = Inr cx_world2 \<and>
   cancel_intents (emitted cx_world1 cx_world2) = [1] \<and>
   place_intents (emitted cx_world1 cx_world2) = [cx_make]"
  by (simp add: cx_first cx_second) (simp add: emitted_def cx_world1_def cx_world2_def)

lemma plain_no_overlap: "\<not> bands_overlap [plain_band]"
  by (simp add: bands_overlap_def two_bands_overlap_def plain_band_def)

lemma wit_cancel_nothing:
  "excessive_buy_orders spec_lib ex_keeper [wit_order, ex_other_order] [plain_band] ex_price @
   excessive_sell_orders spec_lib ex_keeper [wit_order, ex_other_order] [plain_band] ex_price @
   outside_orders spec_lib ex_keeper [wit_order, ex_other_order] [plain_band] [plain_band]
     ex_price = []"
  by (simp add: excessive_buy_orders_def excessive_sell_orders_def outside_orders_def
      outside_any_band_orders_def excessive_orders_def our_buy_orders_def our_sell_orders_def
      total_amount_def Let_def wit_order_def ex_other_order_def plain_band_def ex_price_def
      wad_value_def sell_order_price_def)

lemma wit_buy_band:
  "r = 1000 * 10 ^ 18 \<Longrightarrow>
   top_up_buy_band spec_lib ex_keeper [wit_order, ex_other_order] ex_price plain_band r =
     Inr (900 * 10 ^ 18, [wit_make])"
  by (simp add: top_up_buy_band_def our_buy_orders_def total_amount_def Let_def
      wit_order_def ex_other_order_def plain_band_def ex_price_def wit_make_def)

lemma wit_sell_band:
  "r = 1000 * 10 ^ 18 \<Longrightarrow>
   top_up_sell_band spec_lib ex_keeper [wit_order, ex_other_order] ex_price plain_band r =
     (1000 * 10 ^ 18, [])"
  by (simp add: top_up_sell_band_def our_sell_orders_def total_amount_def Let_def
      wit_order_def ex_other_order_def plain_band_def ex_price_def
      wad_value_def sell_order_price_def)

lemma wit_own:
  "filter (\<lambda>order. owner order = our_address ex_keeper) [wit_order, ex_other_order] =
     [wit_order, ex_other_order]"
  by (simp add: wit_order_def ex_other_order_def)

lemma wit_pass:
  assumes "\<not> eth_balance v < min_eth_balance ex_keeper"
    and "bands_config v = ([plain_band], [plain_band])"
    and "price_feed v = Some ex_price"
    and "otc_orders v = [wit_order, ex_other_order]"
    and "balance_of v = (\<lambda>token. 1000 * 10 ^ 18)"
  shows "synchronize_orders spec_lib ex_keeper v =
     Inr (synchronize_makes ex_keeper [(wit_make, DefaultGasPrice)]
            (emit (Balance_of 20) (emit (Balance_of 10) (emit Get_orders
               (emit Get_price (emit Get_orders (emit Get_config (emit Eth_balance v))))))))"
proof -
  have o: "\<not> (bands_overlap (fst (bands_config v)) \<or> bands_overlap (snd (bands_config v)))"
    by (simp add: assms(2) plain_no_overlap)
  have f: "filter (\<lambda>order. owner order = our_address ex_keeper) (otc_orders v) =
      [wit_order, ex_other_order]"
    "fst (bands_config v) = [plain_band]" "snd (bands_config v) = [plain_band]"
    unfolding assms(4) wit_own by (simp_all add: assms(2))
  have t: "top_up_bands spec_lib ex_keeper [wit_order, ex_other_order] [plain_band] [plain_band]
             ex_price u =
           Inr (synchronize_makes ex_keeper [(wit_make, DefaultGasPrice)]
                  (emit (Balance_of 20) (emit (Balance_of 10) u)))"
    if "balance_of u = (\<lambda>token. 1000 * 10 ^ 18)" for u :: "rat world"
    unfolding top_up_bands_eq that
    by (simp add: wit_buy_band wit_sell_band ex_keeper_gas)
  show ?thesis
    unfolding sync_main [OF assms(1) o assms(3)] f wit_cancel_nothing cancel_orders_Nil
    by (simp only: sum.case emit_fields assms(4) wit_own)
      (rule t, simp add: assms(5))
qed

lemma wit_first: "synchronize_orders spec_lib ex_keeper wit_world = Inr wit_world1"
proof -
  have "synchronize_orders spec_lib ex_keeper wit_world =
     Inr (synchronize_makes ex_keeper [(wit_make, DefaultGasPrice)]
            (emit (Balance_of 20) (emit (Balance_of 10) (emit Get_orders
               (emit Get_price (emit Get_orders (emit Get_config
                  (emit Eth_balance wit_world))))))))"
    by (rule wit_pass) (simp_all add: wit_world_def)
  also have "\<dots> = Inr wit_world1"
    by (simp add: wit_world_def wit_world1_def wit_make_def emit_def otc_make_def)
  finally show ?thesis .
qed

lemma landed_single: "landed incl [b] placed = (\<forall>e\<in>set (placed 0). incl b e)"
  by (auto simp: landed_def)

lemma wit_land: "placed_orders_land spec_lib ex_keeper wit_world"
proof -
  have f: "fst (our_orders ex_keeper wit_world) = [wit_order, ex_other_order]"
    "fst (fst (band_configuration wit_world)) = [plain_band]"
    "snd (fst (band_configuration wit_world)) = [plain_band]"
    by (simp_all add: our_orders_def band_configuration_fst plain_no_overlap
        wit_world_def wit_order_def ex_other_order_def)
  have g: "\<not> eth_balance wit_world < min_eth_balance ex_keeper"
    "price_feed wit_world = Some ex_price"
    by (simp_all add: wit_world_def)
  have o: "fst (our_orders ex_keeper wit_world) = [wit_order, ex_other_order]"
    "balance_of wit_world (sai ex_keeper) = 1000 * 10 ^ 18"
    "balance_of wit_world (gem ex_keeper) = 1000 * 10 ^ 18"
    "last_offer_id wit_world = 8"
    by (simp_all add: our_orders_def wit_world_def wit_order_def ex_other_order_def)
  have inc: "BuyBand_includes spec_lib plain_band
      \<lparr>order_id = 9, owner = 1, sell_which_token = 10, sell_how_much = 100 * 10 ^ 18,
       buy_which_token = 20, buy_how_much = 102040816326530612244\<rparr> ex_price"
    by (simp add: plain_band_def ex_price_def wad_value_def buy_order_price_def)
  show ?thesis
    unfolding placed_orders_land_def Let_def f g if_False option.case wit_cancel_nothing
      cancel_orders_Nil sum.case o
    using inc
    by (simp add: landed_single buy_placed_def sell_placed_def wit_buy_band wit_sell_band
        wit_make_def)
qed

theorem second_pass_is_empty_witness:
  "synchronize_orders spec_lib ex_keeper wit_world = Inr wit_world1 \<and>
   sai ex_keeper \<noteq> gem ex_keeper \<and>
   list_all (\<lambda>order. 0 \<le> sell_how_much order) (otc_orders wit_world) \<and>
   0 \<le> balance_of wit_world (sai ex_keeper) \<and> 0 \<le> balance_of wit_world (gem ex_keeper) \<and>
   list_all (\<lambda>b. min_amount b \<le> avg_amount b \<and> avg_amount b \<le> max_amount b)
     (fst (bands_config wit_world) @ snd (bands_config wit_world)) \<and>
   \<not> eth_balance wit_world1 < min_eth_balance ex_keeper \<and>
   \<not> eth_balance wit_world < min_eth_balance ex_keeper \<and>
   placed_orders_land spec_lib ex_keeper wit_world \<and>
   place_intents (emitted wit_world wit_world1) = [wit_make] \<and>
   (\<exists>w2. synchronize_orders spec_lib ex_keeper wit_world1 = Inr w2 \<and>
      cancel_intents (emitted wit_world1 w2) = [] \<and> place_intents (emitted wit_world1 w2) = [])"
proof -
  have h1: "sai ex_keeper \<noteq> gem ex_keeper" by simp
  have h2: "list_all (\<lambda>order. 0 \<le> sell_how_much order) (otc_orders wit_world)"
    by (simp add: wit_world_def wit_order_def ex_other_order_def)
  have h3: "0 \<le> balance_of wit_world (sai ex_keeper)" "0 \<le> balance_of wit_world (gem ex_keeper)"
    by (simp_all add: wit_world_def)
  have h4: "list_all (\<lambda>b. min_amount b \<le> avg_amount b \<and> avg_amount b \<le> max_amount b)
     (fst (bands_config wit_world) @ snd (bands_config wit_world))"
    by (simp add: wit_world_def plain_band_def)
  have e1: "\<not> eth_balance wit_world1 < min_eth_balance ex_keeper"
    and e0: "\<not> eth_balance wit_world < min_eth_balance ex_keeper"
    by (simp_all add: wit_world_def wit_world1_def)
  from e1 e0 have h5: "(eth_balance wit_world1 < min_eth_balance ex_keeper) =
      (eth_balance wit_world < min_eth_balance ex_keeper)" by simp
  have pl: "place_intents (emitted wit_world wit_world1) = [wit_make]"
    by (simp add: emitted_def wit_world_def wit_world1_def)
  from second_pass_is_empty [OF wit_first h1 h2 h3 h4 h5 wit_land]
    wit_first h1 h2 h3 h4 e1 e0 wit_land pl
  show ?thesis by blast
qed

text \<open>
  The condition on the ETH guard is needed: the same first pass from an ETH balance of
  5, the minimum, pays a fee of 1 for its placement, and the second pass stops at the
  ETH guard and cancels the three own orders.
\<close>

lemma second_pass_after_fees:
  "synchronize_orders spec_lib ex_keeper (wit_world\<lparr>eth_balance := 5\<rparr>) =
     Inr (wit_world1\<lparr>eth_balance := 4\<rparr>) \<and>
   (\<exists>w2. synchronize_orders spec_lib ex_keeper (wit_world1\<lparr>eth_balance := 4\<rparr>) = Inr w2 \<and>
      cancel_intents (emitted (wit_world1\<lparr>eth_balance := 4\<rparr>) w2) = [7, 8, 9])"
proof -
  have "synchronize_orders spec_lib ex_keeper (wit_world\<lparr>eth_balance := 5\<rparr>) =
     Inr (synchronize_makes ex_keeper [(wit_make, DefaultGasPrice)]
            (emit (Balance_of 20) (emit (Balance_of 10) (emit Get_orders
               (emit Get_price (emit Get_orders (emit Get_config
                  (emit Eth_balance (wit_world\<lparr>eth_balance := 5\<rparr>)))))))))"
    by (rule wit_pass) (simp_all add: wit_world_def)
  also have "\<dots> = Inr (wit_world1\<lparr>eth_balance := 4\<rparr>)"
    by (simp add: wit_world_def wit_world1_def wit_make_def emit_def otc_make_def)
  finally have first: "synchronize_orders spec_lib ex_keeper (wit_world\<lparr>eth_balance := 5\<rparr>) =
     Inr (wit_world1\<lparr>eth_balance := 4\<rparr>)" .
  have low: "eth_balance (wit_world1\<lparr>eth_balance := 4\<rparr>) < min_eth_balance ex_keeper"
    by simp
  from sync_eth_low_trace [OF low ex_keeper_gas(1), of spec_lib]
  have "\<exists>w2. synchronize_orders spec_lib ex_keeper (wit_world1\<lparr>eth_balance := 4\<rparr>) = Inr w2 \<and>
      cancel_intents (emitted (wit_world1\<lparr>eth_balance := 4\<rparr>) w2) = [7, 8, 9]"
    by (auto simp: emitted_def wit_world1_def wit_order_def ex_other_order_def)
  with first show ?thesis by blast
qed

end
